theory Spec2Isabelle
  imports Complex_Main "HOL-Library.Word" "HOL-Library.Sublist" "HOL-Library.AList"
begin

chapter \<open>The model\<close>

section \<open>Python strings\<close>

text \<open>
  Model identifiers, colour names and paths are Python \<open>str\<close> values; they are modelled as
  \<open>string\<close> (a list of 8-bit characters). \<open>str.lower\<close> and \<open>str.upper\<close> are modelled on
  the ASCII letters, which is what they do on the ASCII identifiers of the catalogue.
\<close>

definition lower_char :: "char \<Rightarrow> char" where
  "lower_char c =
     (case map_of (zip ''ABCDEFGHIJKLMNOPQRSTUVWXYZ'' ''abcdefghijklmnopqrstuvwxyz'') c of
        Some d \<Rightarrow> d
      | None \<Rightarrow> c)"

definition upper_char :: "char \<Rightarrow> char" where
  "upper_char c =
     (case map_of (zip ''abcdefghijklmnopqrstuvwxyz'' ''ABCDEFGHIJKLMNOPQRSTUVWXYZ'') c of
        Some d \<Rightarrow> d
      | None \<Rightarrow> c)"

definition lower :: "string \<Rightarrow> string" where
  "lower s = map lower_char s"

definition upper :: "string \<Rightarrow> string" where
  "upper s = map upper_char s"

text \<open>\<open>sub in s\<close>: \<open>sub\<close> occurs in \<open>s\<close> as a contiguous substring.\<close>

fun str_in :: "string \<Rightarrow> string \<Rightarrow> bool" where
  "str_in sub [] = (sub = [])"
| "str_in sub (c # cs) = (prefix sub (c # cs) \<or> str_in sub cs)"

text \<open>
  \<open>s.replace(old, new)\<close>: the occurrences of \<open>old\<close> are replaced from the left, without
  overlap. With an empty \<open>old\<close> Python puts \<open>new\<close> before every character and at the end.
\<close>

function replace :: "string \<Rightarrow> string \<Rightarrow> string \<Rightarrow> string" where
  "replace old new s =
     (if old = [] then new @ concat (map (\<lambda>c. c # new) s)
      else if s = [] then []
      else if prefix old s then new @ replace old new (drop (length old) s)
      else hd s # replace old new (tl s))"
  by pat_completeness auto
termination
  by (relation "measure (\<lambda>(old, new, s). length s)") auto

section \<open>Colour and model registry\<close>

definition COLORS :: "(string \<times> (int \<times> int \<times> int)) list" where
  "COLORS =
     [(''navy_blue'', (16, 43, 78)),
      (''egyptian_blue'', (35, 60, 136)),
      (''royal_blue'', (36, 98, 167)),
      (''icy_blue'', (117, 190, 233)),
      (''shamrock_green'', (0, 159, 72)),
      (''jolly_green'', (0, 114, 59)),
      (''hunter_green'', (14, 69, 42)),
      (''silver_gray'', (201, 199, 199)),
      (''matte_black'', (45, 42, 43)),
      (''white'', (255, 255, 255)),
      (''indigo_purple'', (94, 46, 134)),
      (''power_purple'', (104, 28, 91)),
      (''merchant_maroon'', (116, 17, 46)),
      (''cardinal_red'', (182, 31, 61)),
      (''racing_red'', (227, 50, 38)),
      (''tiger_orange'', (244, 121, 32)),
      (''golden_yellow'', (255, 212, 0)),
      (''metallic_gold'', (180, 151, 90)),
      (''red'', (236, 27, 36)),
      (''amber'', (249, 165, 25)),
      (''none'', (255, 255, 255))]"

text \<open>\<open>COLORS.get(color_name, (255, 255, 255))\<close>\<close>

definition COLORS_get :: "string \<Rightarrow> int \<times> int \<times> int" where
  "COLORS_get color_name =
     (case map_of COLORS color_name of Some rgb \<Rightarrow> rgb | None \<Rightarrow> (255, 255, 255))"

definition UI_COLORS :: "string list" where
  "UI_COLORS = filter (\<lambda>c. c \<notin> set [''none'', ''red'', ''amber'']) (map fst COLORS)"

definition LED_COLORS :: "string list" where
  "LED_COLORS = [''red'', ''amber'']"

definition ACCENT_COLORS :: "string list" where
  "ACCENT_COLORS = UI_COLORS @ [''none'']"

definition MULTICOLOR_LEDS :: "string list" where
  "MULTICOLOR_LEDS =
     [''2180'', ''2330'', ''2350'', ''2370'', ''2550'', ''2555'', ''2556'',
      ''2570'', ''2575'', ''2576'', ''2655'', ''2665'', ''2770'',
      ''8350'', ''8650'', ''8750'', ''8850'', ''lx2*'', ''lx8440'']"

definition FORCE_SINGLE_COLOR_LED :: "string list" where
  "FORCE_SINGLE_COLOR_LED = [''lx2120'']"

subsection \<open>The regular expressions of the pattern table\<close>

text \<open>
  \<open>pattern.replace('*', '.+')\<close> turns a pattern of the table into a regular expression made
  of literal characters and of \<open>.+\<close>. \<open>re.search(regex, s, re.IGNORECASE)\<close> is modelled for
  that fragment: a literal matches its character in either case, \<open>.\<close> matches any character
  but a newline, \<open>+\<close> repeats the item before it once or more, and the search tries every
  start position.
\<close>

datatype re_item = Lit char | Dot | DotPlus

fun re_parse :: "string \<Rightarrow> re_item list" where
  "re_parse [] = []"
| "re_parse [c] = [if c = CHR ''.'' then Dot else Lit c]"
| "re_parse (c # d # cs) =
     (if c = CHR ''.'' \<and> d = CHR ''+'' then DotPlus # re_parse cs
      else (if c = CHR ''.'' then Dot else Lit c) # re_parse (d # cs))"

fun re_match_here :: "re_item list \<Rightarrow> string \<Rightarrow> bool" where
  "re_match_here [] s = True"
| "re_match_here (item # items) [] = False"
| "re_match_here (Lit c # items) (d # s) = (lower_char c = lower_char d \<and> re_match_here items s)"
| "re_match_here (Dot # items) (d # s) = (d \<noteq> CHR 0x0A \<and> re_match_here items s)"
| "re_match_here (DotPlus # items) (d # s) =
     (d \<noteq> CHR 0x0A \<and> (re_match_here items s \<or> re_match_here (DotPlus # items) s))"

fun re_search_items :: "re_item list \<Rightarrow> string \<Rightarrow> bool" where
  "re_search_items items [] = re_match_here items []"
| "re_search_items items (c # cs) = (re_match_here items (c # cs) \<or> re_search_items items cs)"

definition re_search_ignorecase :: "string \<Rightarrow> string \<Rightarrow> bool" where
  "re_search_ignorecase regex s = re_search_items (re_parse regex) s"

subsection \<open>is_multicolor_led\<close>

text \<open>The first loop: \<open>True\<close> when some token of the override list is in the lowered id.\<close>

fun check_exceptions :: "string list \<Rightarrow> string \<Rightarrow> bool" where
  "check_exceptions [] model_lower = False"
| "check_exceptions (single # rest) model_lower =
     (if str_in (lower single) model_lower then True else check_exceptions rest model_lower)"

text \<open>The second loop, over the pattern list, on the id as it was given.\<close>

fun check_patterns :: "string list \<Rightarrow> string \<Rightarrow> bool" where
  "check_patterns [] model_id = False"
| "check_patterns (pattern # rest) model_id =
     (if str_in ''*'' pattern then
        (if re_search_ignorecase (replace ''*'' ''.+'' pattern) model_id then True
         else check_patterns rest model_id)
      else
        (if str_in pattern model_id then True else check_patterns rest model_id))"

definition is_multicolor_led :: "string \<Rightarrow> bool" where
  "is_multicolor_led model_id =
     (let model_lower = lower model_id in
      if check_exceptions FORCE_SINGLE_COLOR_LED model_lower then False
      else check_patterns MULTICOLOR_LEDS model_id)"

subsection \<open>normalize_model_name\<close>

definition normalize_model_name :: "string \<Rightarrow> string" where
  "normalize_model_name model =
     replace ''lx2545b'' ''lx2545v''
       (replace ''lx2655b'' ''lx2655v''
         (replace ''lx2665b'' ''lx2665v''
           (replace ''-fourface'' ''-4'' model)))"

text \<open>
  When is a pattern \<open>p\<close> unable to start inside a replacement text \<open>new\<close>, whatever follows
  it? When at every position of \<open>new\<close> the rest of \<open>new\<close> and \<open>p\<close> differ at a character
  both have.
\<close>

definition overlap_free :: "string \<Rightarrow> string \<Rightarrow> bool" where
  "overlap_free p new =
     list_all (\<lambda>i. \<not> prefix p (drop i new) \<and> \<not> prefix (drop i new) p) [0..<length new]"


section \<open>Images\<close>

text \<open>
  A decoded mask is modelled as the 4-channel raster \<open>img.convert('RGBA')\<close> gives: its size
  and its pixels in row order, each pixel the bytes (R, G, B, A). On such a value
  \<open>convert('RGBA')\<close> is the identity, so the model leaves it out.
\<close>

type_synonym u8 = "8 word"

type_synonym pixel = "u8 \<times> u8 \<times> u8 \<times> u8"

record image =
  img_size :: "nat \<times> nat"
  img_data :: "pixel list"

text \<open>
  The operations of the imaging library (Pillow) that the program calls. Their code is not
  part of the repository, so they are parameters of the model: every theorem below holds for
  any such library.
  \<^item> \<open>pil_open\<close>: \<open>Image.open\<close> on the bytes of a file; \<open>None\<close> when it raises.
  \<^item> \<open>pil_grayscale\<close>: the luminance \<open>ImageOps.grayscale\<close> gives a pixel from its R, G, B.
  \<^item> \<open>pil_contrast gray factor p\<close>: the value \<open>ImageEnhance.Contrast(gray).enhance(factor)\<close>
    gives a pixel of value \<open>p\<close> of the grayscale image \<open>gray\<close>.
  \<^item> \<open>pil_resize\<close>: \<open>resize(size, Image.LANCZOS)\<close>.
  \<^item> \<open>pil_alpha_composite\<close>: \<open>Image.alpha_composite\<close>.
  \<^item> \<open>pil_save_png\<close>: the bytes \<open>save(buffer, format='PNG', optimize=True)\<close> writes.
  \<^item> \<open>scaled_height h w rw\<close>: \<open>int(h * (w / rw))\<close> in Python's floating point.
\<close>

record pillow =
  pil_open :: "u8 list \<Rightarrow> image option"
  pil_grayscale :: "u8 \<Rightarrow> u8 \<Rightarrow> u8 \<Rightarrow> u8"
  pil_contrast :: "u8 list \<Rightarrow> real \<Rightarrow> u8 \<Rightarrow> u8"
  pil_resize :: "image \<Rightarrow> nat \<times> nat \<Rightarrow> image"
  pil_alpha_composite :: "image \<Rightarrow> image \<Rightarrow> image"
  pil_save_png :: "image \<Rightarrow> u8 list"
  scaled_height :: "nat \<Rightarrow> nat \<Rightarrow> nat \<Rightarrow> nat"

subsection \<open>The array arithmetic of the colour injection\<close>

text \<open>
  \<open>gray_arr\<close> is an \<open>int32\<close> array: a sum wraps around at 32 bits. \<open>np.clip(x, lo, hi)\<close> is
  \<open>minimum(maximum(x, lo), hi)\<close>, and \<open>astype(np.uint8)\<close> keeps the low 8 bits.
\<close>

definition wrap_int32 :: "int \<Rightarrow> int" where
  "wrap_int32 x = (x + 2 ^ 31) mod 2 ^ 32 - 2 ^ 31"

definition np_clip :: "int \<Rightarrow> int \<Rightarrow> int \<Rightarrow> int" where
  "np_clip x lo hi = min (max x lo) hi"

definition astype_uint8 :: "int \<Rightarrow> u8" where
  "astype_uint8 x = word_of_int x"

text \<open>\<open>np.clip(gray_arr + k, 0, 255).astype(np.uint8)\<close>, for one element \<open>p\<close> of \<open>gray_arr\<close>.\<close>

definition additive_channel :: "int \<Rightarrow> int \<Rightarrow> u8" where
  "additive_channel p k = astype_uint8 (np_clip (wrap_int32 (p + k)) 0 255)"

subsection \<open>colorize_image\<close>

text \<open>\<open>img.split()[3]\<close> and \<open>result.putalpha(alpha)\<close> on images of one size.\<close>

definition split_alpha :: "image \<Rightarrow> u8 list" where
  "split_alpha img = map (\<lambda>(r, g, b, a). a) (img_data img)"

definition putalpha :: "(u8 \<times> u8 \<times> u8) list \<Rightarrow> u8 list \<Rightarrow> pixel list" where
  "putalpha colored alpha = map2 (\<lambda>(r, g, b) a. (r, g, b, a)) colored alpha"

text \<open>
  Steps 1 to 3 of the algorithm: grayscale, contrast with the factor 2.0, and the inversion
  \<open>255 - p\<close> when \<open>negate\<close> is set. The result is the image \<open>contrasted\<close> of the source.
\<close>

definition contrasted_image :: "pillow \<Rightarrow> image \<Rightarrow> bool \<Rightarrow> u8 list" where
  "contrasted_image lib img negate =
     (let gray = map (\<lambda>(r, g, b, a). pil_grayscale lib r g b) (img_data img);
          contrasted = map (pil_contrast lib gray 2) gray
      in if negate then map (\<lambda>p. 255 - p) contrasted else contrasted)"

definition colorize_image :: "pillow \<Rightarrow> image \<Rightarrow> string \<Rightarrow> bool \<Rightarrow> image" where
  "colorize_image lib img color_name negate =
     (let rgb = COLORS_get color_name;
          alpha = split_alpha img;
          gray_arr = map uint (contrasted_image lib img negate);
          (r, g, b) = rgb;
          colored = map (\<lambda>p. (additive_channel p r, additive_channel p g, additive_channel p b))
                      gray_arr
      in img\<lparr>img_data := putalpha colored alpha\<rparr>)"

text \<open>The nested function \<open>colorize\<close> of \<open>generate_single_image\<close>: the same statements.\<close>

definition colorize :: "pillow \<Rightarrow> image \<Rightarrow> string \<Rightarrow> bool \<Rightarrow> image" where
  "colorize lib img color_name negate =
     (let rgb = COLORS_get color_name;
          alpha = split_alpha img;
          gray_arr = map uint (contrasted_image lib img negate);
          (r, g, b) = rgb;
          colored = map (\<lambda>p. (additive_channel p r, additive_channel p g, additive_channel p b))
                      gray_arr
      in img\<lparr>img_data := putalpha colored alpha\<rparr>)"

section \<open>Mask resolver and layer compositor\<close>

text \<open>
  The local mask cache (the volume mounted at \<open>/cache\<close>) is a map from paths to file
  contents: \<open>os.path.exists(path)\<close> is \<open>cache path \<noteq> None\<close>.
\<close>

type_synonym files = "string \<rightharpoonup> u8 list"

text \<open>\<open>f"/cache/masks/{m}/{layer}.png"\<close>\<close>

definition mask_path :: "string \<Rightarrow> string \<Rightarrow> string" where
  "mask_path m layer = ''/cache/masks/'' @ m @ ''/'' @ layer @ ''.png''"

text \<open>
  The loop over the candidate paths, the same in both \<open>get_mask\<close> functions: the first
  path that exists and that \<open>Image.open\<close> accepts gives the mask; a path that does not exist
  or whose file does not open is passed over.
\<close>

fun open_first :: "pillow \<Rightarrow> files \<Rightarrow> string list \<Rightarrow> image option" where
  "open_first lib cache [] = None"
| "open_first lib cache (path # rest) =
     (case cache path of
        None \<Rightarrow> open_first lib cache rest
      | Some content \<Rightarrow>
          (case pil_open lib content of
             Some img \<Rightarrow> Some img
           | None \<Rightarrow> open_first lib cache rest))"

text \<open>\<open>ImageGenerator.get_mask\<close>\<close>

definition get_mask :: "pillow \<Rightarrow> files \<Rightarrow> string \<Rightarrow> string \<Rightarrow> image option" where
  "get_mask lib cache model layer =
     (let model_normalized = normalize_model_name model;
          paths_to_try =
            [mask_path model_normalized layer,
             mask_path (lower model_normalized) layer,
             mask_path (upper model_normalized) layer,
             mask_path model layer]
      in open_first lib cache paths_to_try)"

text \<open>The nested \<open>get_mask\<close> of \<open>generate_single_image\<close>\<close>

definition get_mask_single :: "pillow \<Rightarrow> files \<Rightarrow> string \<Rightarrow> string \<Rightarrow> image option" where
  "get_mask_single lib cache m layer =
     (let paths = [mask_path m layer, mask_path (lower m) layer, mask_path (upper m) layer]
      in open_first lib cache paths)"

text \<open>\<open>Image.new('RGBA', size, (0, 0, 0, 0))\<close>\<close>

definition new_transparent :: "nat \<times> nat \<Rightarrow> image" where
  "new_transparent sz = \<lparr>img_size = sz, img_data = replicate (fst sz * snd sz) (0, 0, 0, 0)\<rparr>"

text \<open>
  A requested width is a number or missing; \<open>if width and width != result.width\<close> holds for
  a number that is neither zero nor the width of the composite.
\<close>

definition resize_to_width :: "pillow \<Rightarrow> image \<Rightarrow> nat option \<Rightarrow> image" where
  "resize_to_width lib result width =
     (case width of
        None \<Rightarrow> result
      | Some wd \<Rightarrow>
          (if wd \<noteq> 0 \<and> wd \<noteq> fst (img_size result) then
             (let new_height = scaled_height lib (snd (img_size result)) wd (fst (img_size result))
              in pil_resize lib result (wd, new_height))
           else result))"

text \<open>
  \<open>ImageGenerator.generate_image\<close>, first part: the list \<open>layers\<close> as it stands before the
  test \<open>if not layers\<close>, collected in the fixed order.
\<close>

definition generate_image_layers ::
  "pillow \<Rightarrow> files \<Rightarrow> string \<Rightarrow> string \<Rightarrow> string \<Rightarrow> string \<Rightarrow> (string \<times> image) list" where
  "generate_image_layers lib cache model primary accent leds =
     (let model_normalized = normalize_model_name model;
          accent_color = (if accent = ''none'' \<or> accent = ''n/a'' then primary else accent);
          layers = [];
          layers = (case get_mask lib cache model_normalized ''Frame'' of
                      Some frame \<Rightarrow> layers @ [(''Frame'', frame)]
                    | None \<Rightarrow> layers);
          layers = (case get_mask lib cache model_normalized ''Face'' of
                      Some face \<Rightarrow> layers @ [(''Face'', colorize_image lib face primary True)]
                    | None \<Rightarrow> layers);
          layers = (case get_mask lib cache model_normalized ''Accent-Striping'' of
                      Some accent_layer \<Rightarrow>
                        layers @ [(''Accent-Striping'',
                                   colorize_image lib accent_layer accent_color True)]
                    | None \<Rightarrow> layers);
          layers = (case get_mask lib cache model_normalized ''Masks'' of
                      Some masks \<Rightarrow> layers @ [(''Masks'', masks)]
                    | None \<Rightarrow> layers);
          layers = (case get_mask lib cache model_normalized ''LED-Glow'' of
                      Some led_layer \<Rightarrow>
                        (if is_multicolor_led model then layers @ [(''LED-Glow'', led_layer)]
                         else layers @ [(''LED-Glow'', colorize_image lib led_layer leds True)])
                    | None \<Rightarrow> layers);
          layers = (case get_mask lib cache model_normalized ''Captions'' of
                      Some captions \<Rightarrow>
                        layers @ [(''Captions'', colorize_image lib captions ''white'' True)]
                    | None \<Rightarrow> layers)
      in layers)"

text \<open>
  \<open>ImageGenerator.generate_image\<close>, second part: \<open>None\<close> when no layer was found; otherwise
  the layers are composited on a transparent canvas of the size of the first one, the result
  is resized to the width and encoded.
\<close>

definition generate_image ::
  "pillow \<Rightarrow> files \<Rightarrow> string \<Rightarrow> string \<Rightarrow> string \<Rightarrow> string \<Rightarrow> nat option \<Rightarrow> u8 list option" where
  "generate_image lib cache model primary accent leds width =
     (let layers = generate_image_layers lib cache model primary accent leds
      in case layers of
           [] \<Rightarrow> None
         | first # _ \<Rightarrow>
             (let result = new_transparent (img_size (snd first));
                  result = foldl (\<lambda>result (name, layer).
                                    (let layer = (if img_size layer \<noteq> img_size result
                                                  then pil_resize lib layer (img_size result)
                                                  else layer)
                                     in pil_alpha_composite lib result layer))
                             result layers;
                  result = resize_to_width lib result width
              in Some (pil_save_png lib result)))"

text \<open>
  The rendering statements of \<open>generate_single_image\<close>, from the normalisation of the model
  to the encoded bytes, in the same two parts. The progress updates between them write to
  the progress table only and are part of \<open>generate_single_image\<close> below. \<open>None\<close> stands for
  \<open>not layers\<close>, where the function returns its error payload.
\<close>

definition single_image_layers ::
  "pillow \<Rightarrow> files \<Rightarrow> string \<Rightarrow> string \<Rightarrow> string \<Rightarrow> string \<Rightarrow> image list" where
  "single_image_layers lib cache model primary accent leds =
     (let model_normalized = normalize_model_name model;
          accent_color = (if accent = ''none'' \<or> accent = ''n/a'' then primary else accent);
          layers = [];
          layers = (case get_mask_single lib cache model_normalized ''Frame'' of
                      Some frame \<Rightarrow> layers @ [frame]
                    | None \<Rightarrow> layers);
          layers = (case get_mask_single lib cache model_normalized ''Face'' of
                      Some face \<Rightarrow> layers @ [colorize lib face primary True]
                    | None \<Rightarrow> layers);
          layers = (case get_mask_single lib cache model_normalized ''Accent-Striping'' of
                      Some accent_layer \<Rightarrow> layers @ [colorize lib accent_layer accent_color True]
                    | None \<Rightarrow> layers);
          layers = (case get_mask_single lib cache model_normalized ''Masks'' of
                      Some masks \<Rightarrow> layers @ [masks]
                    | None \<Rightarrow> layers);
          layers = (case get_mask_single lib cache model_normalized ''LED-Glow'' of
                      Some led_layer \<Rightarrow>
                        (if is_multicolor_led model then layers @ [led_layer]
                         else layers @ [colorize lib led_layer leds True])
                    | None \<Rightarrow> layers);
          layers = (case get_mask_single lib cache model_normalized ''Captions'' of
                      Some captions \<Rightarrow> layers @ [colorize lib captions ''white'' True]
                    | None \<Rightarrow> layers)
      in layers)"

definition render_single ::
  "pillow \<Rightarrow> files \<Rightarrow> string \<Rightarrow> string \<Rightarrow> string \<Rightarrow> string \<Rightarrow> nat option \<Rightarrow> u8 list option" where
  "render_single lib cache model primary accent leds width =
     (let layers = single_image_layers lib cache model primary accent leds
      in case layers of
           [] \<Rightarrow> None
         | first # _ \<Rightarrow>
             (let result = new_transparent (img_size first);
                  result = foldl (\<lambda>result layer.
                                    (let layer = (if img_size layer \<noteq> img_size result
                                                  then pil_resize lib layer (img_size result)
                                                  else layer)
                                     in pil_alpha_composite lib result layer))
                             result layers;
                  result = resize_to_width lib result width
              in Some (pil_save_png lib result)))"

section \<open>The external stores\<close>

text \<open>
  The task store (Supabase) and the object store (S3) are outside the program. The model
  keeps their contents in a record, together with the local mask cache, and lets every
  request to a store fail: \<open>db_faults\<close> and \<open>s3_faults\<close> say, request by request in the
  order they are made, whether the request raises an exception (an exhausted list means no
  further fault). A theorem about all worlds is thus about all patterns of failure.
  Timestamps and log output are left out.
\<close>

datatype status = Pending | Processing | Completed | Failed

record task =
  task_id :: nat
  task_model :: string
  primary_color :: string
  accent_color :: string
  led_color :: string
  task_width :: "nat option"
  task_status :: status
  attempts :: nat
  s3_key :: "string option"
  file_size_bytes :: "nat option"
  error_message :: "string option"
  batch_id :: "nat option"
  container_id :: "string option"

record progress_row =
  progress_id :: nat
  session_id :: string
  progress_model :: string
  progress_colors :: "string \<times> string \<times> string"
  progress_status :: string
  current_step :: string
  step_number :: int
  progress_percent :: nat
  result_url :: "string option"
  progress_error :: "string option"

record world =
  cache_files :: files
  bucket :: "(string \<times> u8 list) list"
  tasks :: "task list"
  progress :: "progress_row list"
  models_table :: "(string \<times> nat \<times> bool) list"
  next_id :: nat
  spawned :: "(nat \<times> nat \<times> nat option) list"
  db_faults :: "bool list"
  s3_faults :: "bool list"
  spawn_faults :: "bool list"

text \<open>
  A call either raises an exception or returns a value; either way it leaves a world.
  \<open>and_then\<close> runs the next statement after a call that returned and passes an exception
  on; \<open>try_except\<close> is \<open>try: ... except Exception as e: ...\<close>.
\<close>

datatype exn = DbError | S3Error | SpawnError

datatype 'a result = Raised exn | Returned 'a

definition and_then ::
  "'a result \<times> world \<Rightarrow> ('a \<Rightarrow> world \<Rightarrow> 'b result \<times> world) \<Rightarrow> 'b result \<times> world" where
  "and_then m f = (case m of (Raised e, w) \<Rightarrow> (Raised e, w) | (Returned x, w) \<Rightarrow> f x w)"

definition try_except ::
  "'a result \<times> world \<Rightarrow> (exn \<Rightarrow> world \<Rightarrow> 'a result \<times> world) \<Rightarrow> 'a result \<times> world" where
  "try_except m handler =
     (case m of (Raised e, w) \<Rightarrow> handler e w | (Returned x, w) \<Rightarrow> (Returned x, w))"

text \<open>
  One request to a store: it raises when the next fault of the store is set, and consumes
  that fault.
\<close>

definition db_request :: "world \<Rightarrow> unit result \<times> world" where
  "db_request w =
     (if db_faults w \<noteq> [] \<and> hd (db_faults w) then Raised DbError else Returned (),
      w\<lparr>db_faults := tl (db_faults w)\<rparr>)"

definition s3_request :: "world \<Rightarrow> unit result \<times> world" where
  "s3_request w =
     (if s3_faults w \<noteq> [] \<and> hd (s3_faults w) then Raised S3Error else Returned (),
      w\<lparr>s3_faults := tl (s3_faults w)\<rparr>)"

text \<open>\<open>s3.put_object\<close>, \<open>s3.head_object\<close> (which raises for a missing key), \<open>s3.get_object\<close>.\<close>

definition put_object :: "string \<Rightarrow> u8 list \<Rightarrow> world \<Rightarrow> unit result \<times> world" where
  "put_object key body w =
     and_then (s3_request w)
       (\<lambda>_ w. (Returned (), w\<lparr>bucket := AList.update key body (bucket w)\<rparr>))"

definition head_object :: "string \<Rightarrow> world \<Rightarrow> unit result \<times> world" where
  "head_object key w =
     and_then (s3_request w)
       (\<lambda>_ w. (case map_of (bucket w) key of
                  None \<Rightarrow> (Raised S3Error, w)
                | Some body \<Rightarrow> (Returned (), w)))"

definition get_object :: "string \<Rightarrow> world \<Rightarrow> u8 list result \<times> world" where
  "get_object key w =
     and_then (s3_request w)
       (\<lambda>_ w. (case map_of (bucket w) key of
                  None \<Rightarrow> (Raised S3Error, w)
                | Some body \<Rightarrow> (Returned body, w)))"

section \<open>The batch worker\<close>

subsection \<open>update_task_status\<close>

text \<open>
  The body of the \<open>try\<close>: the select of the current attempts (\<open>.single()\<close> raises unless
  exactly one row has the id), then the update of the rows with the id.
  \<open>error[:1000] if error else 'Unknown error'\<close> is the message of a failed task.
\<close>

definition update_data ::
  "string \<Rightarrow> nat \<Rightarrow> status \<Rightarrow> string option \<Rightarrow> nat option \<Rightarrow> string option \<Rightarrow> task \<Rightarrow> task" where
  "update_data container current_attempts st key file_size error t =
     (let t = t\<lparr>task_status := st, container_id := Some container\<rparr>;
          t = (if st = Processing then t\<lparr>attempts := current_attempts + 1\<rparr> else t);
          t = (if st = Completed
               then t\<lparr>s3_key := key, file_size_bytes := file_size, error_message := None\<rparr>
               else t);
          t = (if st = Failed
               then t\<lparr>error_message :=
                        Some (case error of
                                None \<Rightarrow> ''Unknown error''
                              | Some e \<Rightarrow> if e = [] then ''Unknown error'' else take 1000 e)\<rparr>
               else t)
      in t)"

definition update_task_status_body ::
  "string \<Rightarrow> nat \<Rightarrow> status \<Rightarrow> string option \<Rightarrow> nat option \<Rightarrow> string option \<Rightarrow> world
   \<Rightarrow> unit result \<times> world" where
  "update_task_status_body container tid st key file_size error w =
     and_then (db_request w)
       (\<lambda>_ w. case filter (\<lambda>t. task_id t = tid) (tasks w) of
                 [current] \<Rightarrow>
                   (let current_attempts = attempts current
                    in and_then (db_request w)
                         (\<lambda>_ w. (Returned (),
                                  w\<lparr>tasks :=
                                      map (\<lambda>t. if task_id t = tid
                                                then update_data container current_attempts st key
                                                       file_size error t
                                                else t)
                                        (tasks w)\<rparr>)))
               | _ \<Rightarrow> (Raised DbError, w))"

definition update_task_status ::
  "string \<Rightarrow> nat \<Rightarrow> status \<Rightarrow> string option \<Rightarrow> nat option \<Rightarrow> string option \<Rightarrow> world
   \<Rightarrow> unit result \<times> world" where
  "update_task_status container tid st key file_size error w =
     try_except (update_task_status_body container tid st key file_size error w)
       (\<lambda>e w. (Returned (), w))"

subsection \<open>process_batch\<close>

record batch_results =
  success :: nat
  failed :: nat
  skipped :: nat
  errors :: "string list"

text \<open>\<open>str(e)\<close> for the exceptions of the model.\<close>

definition str_exn :: "exn \<Rightarrow> string" where
  "str_exn e =
     (case e of DbError \<Rightarrow> ''task store error'' | S3Error \<Rightarrow> ''object store error''
      | SpawnError \<Rightarrow> ''spawn error'')"

text \<open>\<open>f"colorpicker-generated/{model}/{primary}-{accent}-{leds}.png"\<close>\<close>

definition output_key :: "string \<Rightarrow> string \<Rightarrow> string \<Rightarrow> string \<Rightarrow> string" where
  "output_key model primary accent leds =
     ''colorpicker-generated/'' @ model @ ''/'' @ primary @ ''-'' @ accent @ ''-'' @ leds @ ''.png''"

text \<open>
  The body of the \<open>try\<close> of the loop, for one task. \<open>not image_bytes\<close> holds for \<open>None\<close> and
  for no bytes at all.
\<close>

definition process_task_body ::
  "pillow \<Rightarrow> string \<Rightarrow> task \<Rightarrow> batch_results \<Rightarrow> world \<Rightarrow> batch_results result \<times> world" where
  "process_task_body lib container t results w =
     and_then (update_task_status container (task_id t) Processing None None None w)
       (\<lambda>_ w.
          (let image_bytes = generate_image lib (cache_files w) (task_model t) (primary_color t)
                               (accent_color t) (led_color t) (task_width t);
               no_layers =
                 and_then (update_task_status container (task_id t) Failed None None
                             (Some ''No layers found for model'') w)
                   (\<lambda>_ w. (Returned (results\<lparr>failed := failed results + 1,
                                               errors := errors results
                                                         @ [task_model t @ '': No layers'']\<rparr>),
                            w))
           in case image_bytes of
                None \<Rightarrow> no_layers
              | Some bytes \<Rightarrow>
                  (if bytes = [] then no_layers
                   else
                     (let key = output_key (task_model t) (primary_color t) (accent_color t)
                                  (led_color t)
                      in and_then (put_object key bytes w)
                           (\<lambda>_ w.
                              and_then (update_task_status container (task_id t) Completed
                                          (Some key) (Some (length bytes)) None w)
                                (\<lambda>_ w. (Returned (results\<lparr>success := success results + 1\<rparr>),
                                         w)))))))"

text \<open>One turn of the loop: the \<open>try\<close> and its \<open>except Exception as e\<close>.\<close>

definition process_task ::
  "pillow \<Rightarrow> string \<Rightarrow> task \<Rightarrow> batch_results \<Rightarrow> world \<Rightarrow> batch_results result \<times> world" where
  "process_task lib container t results w =
     try_except (process_task_body lib container t results w)
       (\<lambda>e w.
          and_then (update_task_status container (task_id t) Failed None None (Some (str_exn e)) w)
            (\<lambda>_ w. (Returned (results\<lparr>failed := failed results + 1,
                                        errors := errors results
                                                  @ [task_model t @ '': '' @ take 100 (str_exn e)]\<rparr>),
                     w)))"

fun process_tasks ::
  "pillow \<Rightarrow> string \<Rightarrow> task list \<Rightarrow> batch_results \<Rightarrow> world \<Rightarrow> batch_results result \<times> world" where
  "process_tasks lib container [] results w = (Returned results, w)"
| "process_tasks lib container (t # rest) results w =
     and_then (process_task lib container t results w)
       (\<lambda>results w. process_tasks lib container rest results w)"

definition process_batch ::
  "pillow \<Rightarrow> string \<Rightarrow> task list \<Rightarrow> world \<Rightarrow> batch_results result \<times> world" where
  "process_batch lib container task_list w =
     process_tasks lib container task_list
       \<lparr>success = 0, failed = 0, skipped = 0, errors = []\<rparr> w"

section \<open>The orchestrator\<close>

subsection \<open>populate_tasks\<close>

text \<open>
  A combination is the tuple \<open>(model, primary, accent, led)\<close>; \<open>identity_of\<close> reads it off a
  row, as the loop over the pages of existing tasks does.
\<close>

type_synonym combo = "string \<times> string \<times> string \<times> string"

definition identity_of :: "task \<Rightarrow> combo" where
  "identity_of t = (task_model t, primary_color t, accent_color t, led_color t)"

text \<open>
  The reset of the failed tasks: the rows with \<open>status = 'failed'\<close> and \<open>attempts < 3\<close> get
  the status \<open>pending\<close> and no error message.
\<close>

definition reset_failed_tasks :: "task list \<Rightarrow> task list" where
  "reset_failed_tasks rows =
     map (\<lambda>t. if task_status t = Failed \<and> attempts t < 3
               then t\<lparr>task_status := Pending, error_message := None\<rparr>
               else t)
       rows"

definition page_size :: nat where
  "page_size = 1000"

text \<open>
  The loop over the pages of the existing tasks. \<open>.range(offset, offset + page_size - 1)\<close>
  is modelled as that slice of the table, whose rows the store returns in a fixed order.
\<close>

function fetch_existing :: "nat \<Rightarrow> combo set \<Rightarrow> world \<Rightarrow> combo set result \<times> world" where
  "fetch_existing offset existing w =
     (case db_request w of
        (Raised e, w) \<Rightarrow> (Raised e, w)
      | (Returned _, w) \<Rightarrow>
          (let data = take page_size (drop offset (tasks w))
           in if data = [] then (Returned existing, w)
              else
                (let existing = existing \<union> set (map identity_of data)
                 in if length data < page_size then (Returned existing, w)
                    else fetch_existing (offset + page_size) existing w)))"
  by pat_completeness auto
termination
  by (relation "measure (\<lambda>(offset, existing, w). length (tasks w) - offset)")
     (auto simp: db_request_def page_size_def)

text \<open>
  The row the store makes of an inserted dict: the store gives it the next id; the dict
  sets the width 720 and the status \<open>pending\<close>; the other columns take their defaults.
\<close>

definition new_row :: "nat \<Rightarrow> combo \<Rightarrow> task" where
  "new_row n c =
     (case c of
        (model, primary, accent, led) \<Rightarrow>
          \<lparr>task_id = n, task_model = model, primary_color = primary, accent_color = accent,
           led_color = led, task_width = Some 720, task_status = Pending, attempts = 0,
           s3_key = None, file_size_bytes = None, error_message = None, batch_id = None,
           container_id = None\<rparr>)"

definition insert_rows :: "combo list \<Rightarrow> world \<Rightarrow> world" where
  "insert_rows batch w =
     w\<lparr>tasks := tasks w @ map (\<lambda>(i, c). new_row (next_id w + i) c) (enumerate 0 batch),
       next_id := next_id w + length batch\<rparr>"

text \<open>
  The loop over the batches of 500 new tasks: an insert that raises is logged and the loop
  goes on with the next batch.
\<close>

function insert_batches :: "combo list \<Rightarrow> world \<Rightarrow> world" where
  "insert_batches new_tasks w =
     (if new_tasks = [] then w
      else
        (let batch = take 500 new_tasks
         in case db_request w of
              (Raised e, w) \<Rightarrow> insert_batches (drop 500 new_tasks) w
            | (Returned _, w) \<Rightarrow> insert_batches (drop 500 new_tasks) (insert_rows batch w)))"
  by pat_completeness auto
termination
  by (relation "measure (\<lambda>(new_tasks, w). length new_tasks)") auto

text \<open>The loop over the models that upserts the model statistics; a failure is logged.\<close>

fun upsert_models :: "string list \<Rightarrow> world \<Rightarrow> world" where
  "upsert_models [] w = w"
| "upsert_models (model # rest) w =
     (let total = length UI_COLORS * length ACCENT_COLORS * length LED_COLORS
      in case db_request w of
           (Raised e, w) \<Rightarrow> upsert_models rest w
         | (Returned _, w) \<Rightarrow>
             upsert_models rest
               (w\<lparr>models_table :=
                    AList.update model (total, is_multicolor_led model) (models_table w)\<rparr>))"

text \<open>
  \<open>populate_tasks\<close>, for a given list of models (when none is given the function takes the
  list \<open>discover_models\<close> returns). The result is \<open>len(new_tasks)\<close>.
\<close>

definition new_tasks_of :: "string list \<Rightarrow> combo set \<Rightarrow> combo list" where
  "new_tasks_of models existing =
     [(model, primary, accent, led).
        model \<leftarrow> models, primary \<leftarrow> UI_COLORS, accent \<leftarrow> ACCENT_COLORS, led \<leftarrow> LED_COLORS,
        (model, primary, accent, led) \<notin> existing]"

definition populate_tasks :: "string list \<Rightarrow> bool \<Rightarrow> world \<Rightarrow> nat result \<times> world" where
  "populate_tasks models reset_failed w =
     and_then
       (if reset_failed
        then and_then (db_request w)
               (\<lambda>_ w. (Returned (), w\<lparr>tasks := reset_failed_tasks (tasks w)\<rparr>))
        else (Returned (), w))
       (\<lambda>_ w.
          and_then (fetch_existing 0 {} w)
            (\<lambda>existing w.
               (let new_tasks = new_tasks_of models existing;
                    w = insert_batches new_tasks w;
                    w = upsert_models models w
                in (Returned (length new_tasks), w))))"

subsection \<open>run_batch_processing\<close>


text \<open>\<open>[xs[i:i + n] for i in range(0, len(xs), n)]\<close>, for a positive \<open>n\<close>.\<close>

function chunks :: "nat \<Rightarrow> 'a list \<Rightarrow> 'a list list" where
  "chunks n xs = (if n = 0 \<or> xs = [] then [] else take n xs # chunks n (drop n xs))"
  by pat_completeness auto
termination
  by (relation "measure (\<lambda>(n, xs). length xs)") auto





section \<open>The HTTP entry points\<close>

subsection \<open>generate_single_image\<close>





text \<open>\<open>update_progress\<close> and \<open>complete_progress\<close>: an update that raises is logged.\<close>

definition update_progress ::
  "bool \<times> nat option \<Rightarrow> string \<Rightarrow> int \<Rightarrow> nat \<Rightarrow> world \<Rightarrow> world" where
  "update_progress client step n percent w =
     (case client of
        (True, Some pid) \<Rightarrow>
          (case db_request w of
             (Raised e, w) \<Rightarrow> w
           | (Returned _, w) \<Rightarrow>
               w\<lparr>progress :=
                   map (\<lambda>p. if progress_id p = pid
                             then p\<lparr>current_step := step, step_number := n,
                                    progress_percent := percent\<rparr>
                             else p)
                     (progress w)\<rparr>)
      | _ \<Rightarrow> w)"

definition complete_progress ::
  "bool \<times> nat option \<Rightarrow> bool \<Rightarrow> string option \<Rightarrow> string option \<Rightarrow> world \<Rightarrow> world" where
  "complete_progress client ok url error w =
     (case client of
        (True, Some pid) \<Rightarrow>
          (case db_request w of
             (Raised e, w) \<Rightarrow> w
           | (Returned _, w) \<Rightarrow>
               w\<lparr>progress :=
                   map (\<lambda>p. if progress_id p = pid
                             then p\<lparr>progress_status := (if ok then ''completed'' else ''error''),
                                    current_step := (if ok then ''Complete!'' else ''Error''),
                                    step_number := (if ok then 7 else - 1),
                                    progress_percent := (if ok then 100 else 0),
                                    result_url := (case url of
                                                     None \<Rightarrow> result_url p
                                                   | Some u \<Rightarrow> if u = [] then result_url p
                                                               else Some u),
                                    progress_error := (case error of
                                                         None \<Rightarrow> progress_error p
                                                       | Some e \<Rightarrow> if e = [] then progress_error p
                                                                   else Some (take 500 e))\<rparr>
                             else p)
                     (progress w)\<rparr>)
      | _ \<Rightarrow> w)"

text \<open>
  The synchronisation of the masks, when the marker file is not there: the keys under
  \<open>masks/\<close> are listed (the listing is one request in the model, and it is not inside a
  \<open>try\<close>), every object that has no local file is downloaded (a download that raises is
  logged), and the marker is written.
\<close>

definition sync_marker :: string where
  "sync_marker = ''/cache/masks_synced_v3''"

fun download_masks :: "string list \<Rightarrow> world \<Rightarrow> world" where
  "download_masks [] w = w"
| "download_masks (key # rest) w =
     (let local_path = ''/cache/'' @ key
      in if cache_files w local_path \<noteq> None then download_masks rest w
         else
           (case get_object key w of
              (Raised e, w) \<Rightarrow> download_masks rest w
            | (Returned body, w) \<Rightarrow>
                download_masks rest (w\<lparr>cache_files := (cache_files w)(local_path \<mapsto> body)\<rparr>)))"

definition sync_masks :: "world \<Rightarrow> unit result \<times> world" where
  "sync_masks w =
     (if cache_files w sync_marker \<noteq> None then (Returned (), w)
      else
        and_then (s3_request w)
          (\<lambda>_ w.
             (let keys = filter (prefix ''masks/'') (map fst (bucket w));
                  w = download_masks keys w
              in (Returned (), w\<lparr>cache_files := (cache_files w)(sync_marker \<mapsto> [])\<rparr>))))"

text \<open>
  The update of the task rows of the combination after the upload; it is made when there is
  a client, and an update that raises is logged.
\<close>

definition complete_tasks ::
  "bool \<times> nat option \<Rightarrow> string \<Rightarrow> string \<Rightarrow> string \<Rightarrow> string \<Rightarrow> string \<Rightarrow> nat \<Rightarrow> world \<Rightarrow> world" where
  "complete_tasks client model primary accent leds key n w =
     (if fst client then
        (case db_request w of
           (Raised e, w) \<Rightarrow> w
         | (Returned _, w) \<Rightarrow>
             w\<lparr>tasks :=
                 map (\<lambda>t. if task_model t = model \<and> primary_color t = primary
                              \<and> accent_color t = accent \<and> led_color t = leds
                           then t\<lparr>task_status := Completed, s3_key := Some key,
                                  file_size_bytes := Some n\<rparr>
                           else t)
                   (tasks w)\<rparr>)
      else w)"


subsection \<open>start_batch_processing\<close>







section \<open>The operations on the task store\<close>

text \<open>
  A task is exhausted when it has 3 attempts or more and is not pending. One step of the
  system is a run of one of its operations, from any arguments and with any faults to come.
\<close>

definition exhausted :: "task \<Rightarrow> bool" where
  "exhausted t = (3 \<le> attempts t \<and> task_status t \<noteq> Pending)"

text \<open>
  What every operation keeps of the rows of the task store: no row is removed, a row keeps
  its id, and an exhausted row stays exhausted.
\<close>

definition rows_kept :: "task list \<Rightarrow> task list \<Rightarrow> bool" where
  "rows_kept rows rows' =
     (length rows \<le> length rows'
      \<and> (\<forall>j<length rows. task_id (rows' ! j) = task_id (rows ! j)
                           \<and> (exhausted (rows ! j) \<longrightarrow> exhausted (rows' ! j))))"


section \<open>A library instance for running the model\<close>

text \<open>
  To evaluate the model on concrete inputs the library record needs an instance. This one
  follows Pillow where the arithmetic is simple (the ITU-R 601-2 luma transform in 16-bit
  fixed point; the contrast blend around the rounded mean, clipped and truncated) and uses
  stand-ins elsewhere: a raw format (width, height, then four bytes a pixel) for PNG,
  nearest-neighbour sampling for the Lanczos filter, and a hard "over" for the blend of
  \<open>alpha_composite\<close>. No theorem depends on it but the evaluations at concrete inputs.
\<close>

definition example_open :: "u8 list \<Rightarrow> image option" where
  "example_open bytes =
     (case bytes of
        w # h # rest \<Rightarrow>
          (if length rest = 4 * unat w * unat h then
             Some \<lparr>img_size = (unat w, unat h),
                   img_data = map (\<lambda>i. (rest ! (4 * i), rest ! (4 * i + 1), rest ! (4 * i + 2),
                                         rest ! (4 * i + 3))) [0..<unat w * unat h]\<rparr>
           else None)
      | _ \<Rightarrow> None)"

definition example_save :: "image \<Rightarrow> u8 list" where
  "example_save img =
     of_nat (fst (img_size img)) # of_nat (snd (img_size img)) #
     concat (map (\<lambda>(r, g, b, a). [r, g, b, a]) (img_data img))"

definition example_grayscale :: "u8 \<Rightarrow> u8 \<Rightarrow> u8 \<Rightarrow> u8" where
  "example_grayscale r g b =
     word_of_int ((uint r * 19595 + uint g * 38470 + uint b * 7471 + 32768) div 65536)"

definition example_contrast :: "u8 list \<Rightarrow> real \<Rightarrow> u8 \<Rightarrow> u8" where
  "example_contrast gray factor p =
     (let n = int (length gray);
          mean = (2 * sum_list (map uint gray) + n) div (2 * n);
          temp = of_int mean + factor * (of_int (uint p) - of_int mean)
      in if temp \<le> 0 then 0 else if 255 \<le> temp then 255 else word_of_int \<lfloor>temp\<rfloor>)"

definition example_resize :: "image \<Rightarrow> nat \<times> nat \<Rightarrow> image" where
  "example_resize img sz =
     (case (img_size img, sz) of
        ((w, h), (w', h')) \<Rightarrow>
          \<lparr>img_size = sz,
           img_data = concat (map (\<lambda>y. map (\<lambda>x. img_data img ! ((y * h div h') * w + x * w div w'))
                                          [0..<w']) [0..<h'])\<rparr>)"

definition example_alpha_composite :: "image \<Rightarrow> image \<Rightarrow> image" where
  "example_alpha_composite dst src =
     dst\<lparr>img_data := map2 (\<lambda>d s. (case s of (r, g, b, a) \<Rightarrow> if a = 0 then d else s))
                         (img_data dst) (img_data src)\<rparr>"

definition example_pillow :: pillow where
  "example_pillow =
     \<lparr>pil_open = example_open,
      pil_grayscale = example_grayscale,
      pil_contrast = example_contrast,
      pil_resize = example_resize,
      pil_alpha_composite = example_alpha_composite,
      pil_save_png = example_save,
      scaled_height = (\<lambda>h w rw. h * w div rw)\<rparr>"

text \<open>A mask of two pixels: a dark opaque one and a light, fully transparent one.\<close>

definition example_mask :: image where
  "example_mask = \<lparr>img_size = (2, 1), img_data = [(10, 10, 10, 255), (200, 200, 200, 0)]\<rparr>"

text \<open>
  A world for the evaluations: the cache holds the frame of the model \<open>m1\<close>, the task store
  one pending task for it, and no request fails.
\<close>

definition example_task :: task where
  "example_task =
     \<lparr>task_id = 1, task_model = ''m1'', primary_color = ''navy_blue'', accent_color = ''none'',
      led_color = ''amber'', task_width = Some 2, task_status = Pending, attempts = 0,
      s3_key = None, file_size_bytes = None, error_message = None, batch_id = None,
      container_id = None\<rparr>"

definition example_world :: world where
  "example_world =
     \<lparr>cache_files = [''/cache/masks/m1/Frame.png'' \<mapsto> example_save example_mask],
      bucket = [], tasks = [example_task], progress = [], models_table = [], next_id = 2,
      spawned = [], db_faults = [], s3_faults = [], spawn_faults = []\<rparr>"

chapter \<open>Properties\<close>

section \<open>Strings\<close>

declare replace.simps [simp del]

lemma replace_Nil: "old \<noteq> [] \<Longrightarrow> replace old new [] = []"
  by (simp add: replace.simps)

lemma replace_hit:
  "old \<noteq> [] \<Longrightarrow> prefix old s \<Longrightarrow>
   replace old new s = new @ replace old new (drop (length old) s)"
  by (subst replace.simps) auto

lemma replace_miss:
  "old \<noteq> [] \<Longrightarrow> \<not> prefix old (c # cs) \<Longrightarrow>
   replace old new (c # cs) = c # replace old new cs"
  by (subst replace.simps) simp

lemma str_in_drop: "str_in p (drop n s) \<Longrightarrow> str_in p s"
proof (induction s arbitrary: n)
  case Nil
  then show ?case by simp
next
  case (Cons c cs)
  show ?case
  proof (cases n)
    case 0
    with Cons.prems show ?thesis by simp
  next
    case (Suc m)
    with Cons.prems have "str_in p (drop m cs)" by simp
    then have "str_in p cs" by (rule Cons.IH)
    then show ?thesis by simp
  qed
qed

lemma str_in_append:
  "str_in p (xs @ ys) \<Longrightarrow> (\<exists>i<length xs. prefix p (drop i xs @ ys)) \<or> str_in p ys"
proof (induction xs)
  case Nil
  then show ?case by simp
next
  case (Cons x xs)
  from Cons.prems have "prefix p ((x # xs) @ ys) \<or> str_in p (xs @ ys)" by simp
  then show ?case
  proof
    assume "prefix p ((x # xs) @ ys)"
    then have "prefix p (drop 0 (x # xs) @ ys)" by simp
    then show ?thesis by blast
  next
    assume "str_in p (xs @ ys)"
    then have "(\<exists>i<length xs. prefix p (drop i xs @ ys)) \<or> str_in p ys" by (rule Cons.IH)
    then show ?thesis
    proof
      assume "\<exists>i<length xs. prefix p (drop i xs @ ys)"
      then obtain i where "i < length xs" "prefix p (drop i xs @ ys)" by blast
      then have "Suc i < length (x # xs) \<and> prefix p (drop (Suc i) (x # xs) @ ys)" by simp
      then show ?thesis by blast
    qed simp
  qed
qed

lemma overlap_free_no_prefix:
  assumes "overlap_free p new" "i < length new"
  shows "\<not> prefix p (drop i new @ t)"
proof
  assume "prefix p (drop i new @ t)"
  then have "prefix p (drop i new) \<or> (\<exists>us. p = drop i new @ us \<and> prefix us t)"
    by (simp add: prefix_append)
  then have "prefix p (drop i new) \<or> prefix (drop i new) p" by auto
  moreover from assms have "\<not> prefix p (drop i new) \<and> \<not> prefix (drop i new) p"
    by (simp add: overlap_free_def list_all_iff)
  ultimately show False by blast
qed

lemma prefix_replace_back:
  "old \<noteq> [] \<Longrightarrow> new \<noteq> [] \<Longrightarrow> hd new \<notin> set q \<Longrightarrow> prefix q (replace old new s) \<Longrightarrow> prefix q s"
proof (induction s arbitrary: q rule: length_induct)
  case (1 s)
  show ?case
  proof (cases q)
    case Nil
    then show ?thesis by simp
  next
    case (Cons b q')
    show ?thesis
    proof (cases s)
      case Nil
      with "1.prems" Cons show ?thesis by (simp add: replace_Nil)
    next
      case sc: (Cons c cs)
      show ?thesis
      proof (cases "prefix old s")
        case True
        with "1.prems" have "prefix q (new @ replace old new (drop (length old) s))"
          by (simp add: replace_hit)
        with Cons "1.prems"(2) have "b = hd new" by (cases new) auto
        with Cons "1.prems"(3) show ?thesis by simp
      next
        case False
        with sc "1.prems" have "prefix q (c # replace old new cs)"
          by (simp add: replace_miss)
        with Cons have bc: "b = c" and pq: "prefix q' (replace old new cs)" by auto
        from "1.prems"(3) Cons have "hd new \<notin> set q'" by simp
        with "1.IH" sc "1.prems"(1,2) pq have "prefix q' cs" by simp
        with bc Cons sc show ?thesis by simp
      qed
    qed
  qed
qed

lemma replace_no_occurrence:
  assumes old: "old \<noteq> []" and new: "new \<noteq> []" and p: "p = a # q"
    and hd: "hd new \<notin> set q" and free: "overlap_free p new"
  shows "p = old \<or> \<not> str_in p s \<Longrightarrow> \<not> str_in p (replace old new s)"
proof (induction s rule: length_induct)
  case (1 s)
  show ?case
  proof (cases s)
    case Nil
    with old p show ?thesis by (simp add: replace_Nil)
  next
    case (Cons c cs)
    show ?thesis
    proof (cases "prefix old s")
      case True
      let ?rest = "drop (length old) s"
      from old Cons have shorter: "length ?rest < length s" by (cases old) auto
      from "1.prems" have "p = old \<or> \<not> str_in p ?rest" using str_in_drop by blast
      with "1.IH" shorter have rest: "\<not> str_in p (replace old new ?rest)" by blast
      have "\<not> str_in p (new @ replace old new ?rest)"
      proof
        assume "str_in p (new @ replace old new ?rest)"
        then have "(\<exists>i<length new. prefix p (drop i new @ replace old new ?rest))
                   \<or> str_in p (replace old new ?rest)"
          by (rule str_in_append)
        with rest obtain i where "i < length new"
          "prefix p (drop i new @ replace old new ?rest)" by blast
        with free show False using overlap_free_no_prefix by blast
      qed
      with True old show ?thesis by (simp add: replace_hit)
    next
      case False
      from "1.prems" Cons have "p = old \<or> \<not> str_in p cs" by auto
      moreover from Cons have "length cs < length s" by simp
      ultimately have tail: "\<not> str_in p (replace old new cs)" using "1.IH" by blast
      have "\<not> prefix p (c # replace old new cs)"
      proof
        assume "prefix p (c # replace old new cs)"
        with p have ac: "a = c" and "prefix q (replace old new cs)" by auto
        with old new hd have "prefix q cs" using prefix_replace_back by blast
        with ac p Cons have hit: "prefix p s" by simp
        with Cons have "str_in p s" by simp
        with "1.prems" hit False show False by blast
      qed
      with tail False old Cons show ?thesis by (simp add: replace_miss)
    qed
  qed
qed

lemma replace_absent: "old \<noteq> [] \<Longrightarrow> \<not> str_in old s \<Longrightarrow> replace old new s = s"
proof (induction s)
  case Nil
  then show ?case by (simp add: replace_Nil)
next
  case (Cons c cs)
  then show ?case by (simp add: replace_miss)
qed

lemma replace_keeps_absent:
  assumes "old \<noteq> []" "new \<noteq> []" "hd new \<notin> set (tl p)" "p \<noteq> []" "overlap_free p new"
    and "\<not> str_in p s"
  shows "\<not> str_in p (replace old new s)"
proof -
  from assms(4) have "p = hd p # tl p" by simp
  with assms show ?thesis using replace_no_occurrence by blast
qed

lemma replace_removes:
  assumes "old \<noteq> []" "new \<noteq> []" "hd new \<notin> set (tl old)" "overlap_free old new"
  shows "\<not> str_in old (replace old new s)"
proof -
  from assms(1) have "old = hd old # tl old" by simp
  with assms show ?thesis using replace_no_occurrence by blast
qed


section \<open>The model registry\<close>

lemma normalize_model_name_no_pattern:
  "\<not> str_in ''-fourface'' (normalize_model_name model)
   \<and> \<not> str_in ''lx2665b'' (normalize_model_name model)
   \<and> \<not> str_in ''lx2655b'' (normalize_model_name model)
   \<and> \<not> str_in ''lx2545b'' (normalize_model_name model)"
proof -
  define r1 where "r1 = replace ''-fourface'' ''-4'' model"
  define r2 where "r2 = replace ''lx2665b'' ''lx2665v'' r1"
  define r3 where "r3 = replace ''lx2655b'' ''lx2655v'' r2"
  define r4 where "r4 = replace ''lx2545b'' ''lx2545v'' r3"
  have n: "normalize_model_name model = r4"
    by (simp add: normalize_model_name_def r1_def r2_def r3_def r4_def)
  have a1: "\<not> str_in ''-fourface'' r1"
    unfolding r1_def by (rule replace_removes) (simp_all add: overlap_free_def upt_rec)
  have a2: "\<not> str_in ''-fourface'' r2"
    unfolding r2_def using a1
    by (intro replace_keeps_absent) (simp_all add: overlap_free_def upt_rec)
  have b2: "\<not> str_in ''lx2665b'' r2"
    unfolding r2_def by (rule replace_removes) (simp_all add: overlap_free_def upt_rec)
  have a3: "\<not> str_in ''-fourface'' r3"
    unfolding r3_def using a2
    by (intro replace_keeps_absent) (simp_all add: overlap_free_def upt_rec)
  have b3: "\<not> str_in ''lx2665b'' r3"
    unfolding r3_def using b2
    by (intro replace_keeps_absent) (simp_all add: overlap_free_def upt_rec)
  have c3: "\<not> str_in ''lx2655b'' r3"
    unfolding r3_def by (rule replace_removes) (simp_all add: overlap_free_def upt_rec)
  have a4: "\<not> str_in ''-fourface'' r4"
    unfolding r4_def using a3
    by (intro replace_keeps_absent) (simp_all add: overlap_free_def upt_rec)
  have b4: "\<not> str_in ''lx2665b'' r4"
    unfolding r4_def using b3
    by (intro replace_keeps_absent) (simp_all add: overlap_free_def upt_rec)
  have c4: "\<not> str_in ''lx2655b'' r4"
    unfolding r4_def using c3
    by (intro replace_keeps_absent) (simp_all add: overlap_free_def upt_rec)
  have d4: "\<not> str_in ''lx2545b'' r4"
    unfolding r4_def by (rule replace_removes) (simp_all add: overlap_free_def upt_rec)
  from a4 b4 c4 d4 show ?thesis by (simp add: n)
qed

lemma normalize_model_name_fixed:
  "\<not> str_in ''-fourface'' s \<Longrightarrow> \<not> str_in ''lx2665b'' s \<Longrightarrow> \<not> str_in ''lx2655b'' s \<Longrightarrow>
   \<not> str_in ''lx2545b'' s \<Longrightarrow> normalize_model_name s = s"
  by (simp add: normalize_model_name_def replace_absent)

lemma override_wins:
  "str_in ''lx2120'' (lower model_id) \<Longrightarrow> \<not> is_multicolor_led model_id"
  by (simp add: is_multicolor_led_def FORCE_SINGLE_COLOR_LED_def lower_def lower_char_def)

text \<open>
  C8. \<open>normalize_model_name\<close> is idempotent: for every string, the four replacements applied
  a second time change nothing, because after the first application no pattern of the four
  rules occurs in the result (no replacement makes a new match for any rule).
\<close>

theorem normalize_model_name_idempotent:
  "normalize_model_name (normalize_model_name model) = normalize_model_name model
   \<and> \<not> str_in ''-fourface'' (normalize_model_name model)
   \<and> \<not> str_in ''lx2665b'' (normalize_model_name model)
   \<and> \<not> str_in ''lx2655b'' (normalize_model_name model)
   \<and> \<not> str_in ''lx2545b'' (normalize_model_name model)"
proof -
  have absent: "\<not> str_in ''-fourface'' (normalize_model_name model)"
    "\<not> str_in ''lx2665b'' (normalize_model_name model)"
    "\<not> str_in ''lx2655b'' (normalize_model_name model)"
    "\<not> str_in ''lx2545b'' (normalize_model_name model)"
    using normalize_model_name_no_pattern [of model] by simp_all
  then have "normalize_model_name (normalize_model_name model) = normalize_model_name model"
    by (rule normalize_model_name_fixed)
  with absent show ?thesis by simp
qed

text \<open>
  C4. The literal patterns of the multicolor list are compared with the id as given, so
  their case matters: the id \<open>LX8440\<close> is not a multicolor model for the code, though the
  id \<open>lx8440\<close> is, and though the override list and the wildcard pattern ignore case
  (\<open>LX2120\<close> is overridden, \<open>LX2665\<close> matches \<open>lx2*\<close>).
\<close>

theorem is_multicolor_led_literal_case:
  "\<not> is_multicolor_led ''LX8440'' \<and> is_multicolor_led ''lx8440''
   \<and> is_multicolor_led ''LX2665'' \<and> \<not> is_multicolor_led ''LX2120''"
  by (simp add: is_multicolor_led_def FORCE_SINGLE_COLOR_LED_def MULTICOLOR_LEDS_def lower_def
      lower_char_def re_search_ignorecase_def replace.simps)

section \<open>The colorize transform\<close>

lemma additive_channel_value:
  assumes "0 \<le> p" "p \<le> 255" "0 \<le> k" "k \<le> 255"
  shows "uint (additive_channel p k) = min 255 (p + k)" and "wrap_int32 (p + k) = p + k"
proof -
  show w: "wrap_int32 (p + k) = p + k"
    using assms by (simp add: wrap_int32_def)
  have c: "np_clip (p + k) 0 255 = min 255 (p + k)"
    using assms by (simp add: np_clip_def min_def max_def)
  have "0 \<le> min 255 (p + k) \<and> min 255 (p + k) < 256" using assms by simp
  then have "uint (word_of_int (min 255 (p + k)) :: u8) = min 255 (p + k)"
    by (simp add: uint_word_of_int)
  then show "uint (additive_channel p k) = min 255 (p + k)"
    using w c by (simp add: additive_channel_def astype_uint8_def)
qed

lemma uint8_bounds: "0 \<le> uint (p :: u8) \<and> uint p \<le> 255"
  using uint_lt2p [of p] by simp

lemma COLORS_get_range:
  "COLORS_get c = (r, g, b) \<Longrightarrow>
   0 \<le> r \<and> r \<le> 255 \<and> 0 \<le> g \<and> g \<le> 255 \<and> 0 \<le> b \<and> b \<le> 255"
  by (auto simp: COLORS_get_def COLORS_def split: if_splits)

lemma length_contrasted: "length (contrasted_image lib img negate) = length (img_data img)"
  by (simp add: contrasted_image_def Let_def)

lemma colorize_image_data:
  "COLORS_get c = (r, g, b) \<Longrightarrow> i < length (img_data img) \<Longrightarrow>
   img_data (colorize_image lib img c negate) ! i =
     (additive_channel (uint (contrasted_image lib img negate ! i)) r,
      additive_channel (uint (contrasted_image lib img negate ! i)) g,
      additive_channel (uint (contrasted_image lib img negate ! i)) b,
      split_alpha img ! i)"
  by (simp add: colorize_image_def Let_def putalpha_def split_alpha_def length_contrasted)

lemma colorize_data:
  "COLORS_get c = (r, g, b) \<Longrightarrow> i < length (img_data img) \<Longrightarrow>
   img_data (colorize lib img c negate) ! i =
     (additive_channel (uint (contrasted_image lib img negate ! i)) r,
      additive_channel (uint (contrasted_image lib img negate ! i)) g,
      additive_channel (uint (contrasted_image lib img negate ! i)) b,
      split_alpha img ! i)"
  by (simp add: colorize_def Let_def putalpha_def split_alpha_def length_contrasted)

lemma colorize_eq: "colorize lib img c negate = colorize_image lib img c negate"
  by (simp add: colorize_def colorize_image_def)

text \<open>
  C1. The colour injection. For a pixel value \<open>p\<close> and a channel value \<open>k\<close>, both in 0..255,
  \<open>np.clip(gray_arr + k, 0, 255).astype(np.uint8)\<close> is \<open>min(255, p + k)\<close>, and the 32-bit
  sum is the exact sum, which is not negative. In \<open>colorize_image\<close>, for every image, colour
  name and invert flag, the value \<open>p\<close> of a pixel after grayscale, contrast and inversion and
  the three channel values of the colour are in 0..255, and each output channel of that pixel
  is \<open>min(255, p + k)\<close> for its channel value \<open>k\<close>. The same holds of every pixel of the
  output of the nested \<open>colorize\<close> of \<open>generate_single_image\<close>.
\<close>

theorem additive_clamp_law:
  "(\<forall>p k. 0 \<le> p \<and> p \<le> 255 \<and> 0 \<le> k \<and> k \<le> 255 \<longrightarrow>
      uint (additive_channel p k) = min 255 (p + k)
      \<and> wrap_int32 (p + k) = p + k \<and> 0 \<le> wrap_int32 (p + k))
   \<and> (\<forall>lib img color_name negate i. i < length (img_data img) \<longrightarrow>
        (case (COLORS_get color_name,
               img_data (colorize_image lib img color_name negate) ! i,
               uint (contrasted_image lib img negate ! i)) of
           ((r, g, b), (cr, cg, cb, ca), p) \<Rightarrow>
             0 \<le> p \<and> p \<le> 255
             \<and> 0 \<le> r \<and> r \<le> 255 \<and> 0 \<le> g \<and> g \<le> 255 \<and> 0 \<le> b \<and> b \<le> 255
             \<and> uint cr = min 255 (p + r) \<and> uint cg = min 255 (p + g)
             \<and> uint cb = min 255 (p + b)))
   \<and> (\<forall>lib img color_name negate i. i < length (img_data img) \<longrightarrow>
        (case (COLORS_get color_name,
               img_data (colorize lib img color_name negate) ! i,
               uint (contrasted_image lib img negate ! i)) of
           ((r, g, b), (cr, cg, cb, ca), p) \<Rightarrow>
             0 \<le> p \<and> p \<le> 255
             \<and> 0 \<le> r \<and> r \<le> 255 \<and> 0 \<le> g \<and> g \<le> 255 \<and> 0 \<le> b \<and> b \<le> 255
             \<and> uint cr = min 255 (p + r) \<and> uint cg = min 255 (p + g)
             \<and> uint cb = min 255 (p + b)))"
proof (intro conjI allI impI)
  fix p k :: int
  assume "0 \<le> p \<and> p \<le> 255 \<and> 0 \<le> k \<and> k \<le> 255"
  then show "uint (additive_channel p k) = min 255 (p + k)" and "wrap_int32 (p + k) = p + k"
    and "0 \<le> wrap_int32 (p + k)"
    by (simp_all add: additive_channel_value)
next
  fix lib :: pillow and img :: image and color_name :: string and negate :: bool and i :: nat
  assume i: "i < length (img_data img)"
  obtain r g b where rgb: "COLORS_get color_name = (r, g, b)"
    by (cases "COLORS_get color_name") auto
  define p where "p = uint (contrasted_image lib img negate ! i)"
  have pr: "0 \<le> p \<and> p \<le> 255" unfolding p_def by (rule uint8_bounds)
  have cr: "0 \<le> r \<and> r \<le> 255 \<and> 0 \<le> g \<and> g \<le> 255 \<and> 0 \<le> b \<and> b \<le> 255"
    using rgb by (rule COLORS_get_range)
  have px: "img_data (colorize_image lib img color_name negate) ! i =
      (additive_channel p r, additive_channel p g, additive_channel p b, split_alpha img ! i)"
    unfolding p_def using rgb i by (rule colorize_image_data)
  show "case (COLORS_get color_name,
               img_data (colorize_image lib img color_name negate) ! i,
               uint (contrasted_image lib img negate ! i)) of
           ((r, g, b), (cr, cg, cb, ca), p) \<Rightarrow>
             0 \<le> p \<and> p \<le> 255
             \<and> 0 \<le> r \<and> r \<le> 255 \<and> 0 \<le> g \<and> g \<le> 255 \<and> 0 \<le> b \<and> b \<le> 255
             \<and> uint cr = min 255 (p + r) \<and> uint cg = min 255 (p + g)
             \<and> uint cb = min 255 (p + b)"
    using pr cr by (simp add: rgb px p_def [symmetric] additive_channel_value)
next
  fix lib :: pillow and img :: image and color_name :: string and negate :: bool and i :: nat
  assume i: "i < length (img_data img)"
  obtain r g b where rgb: "COLORS_get color_name = (r, g, b)"
    by (cases "COLORS_get color_name") auto
  define p where "p = uint (contrasted_image lib img negate ! i)"
  have pr: "0 \<le> p \<and> p \<le> 255" unfolding p_def by (rule uint8_bounds)
  have cr: "0 \<le> r \<and> r \<le> 255 \<and> 0 \<le> g \<and> g \<le> 255 \<and> 0 \<le> b \<and> b \<le> 255"
    using rgb by (rule COLORS_get_range)
  have px: "img_data (colorize lib img color_name negate) ! i =
      (additive_channel p r, additive_channel p g, additive_channel p b, split_alpha img ! i)"
    unfolding p_def using rgb i by (rule colorize_data)
  show "case (COLORS_get color_name,
               img_data (colorize lib img color_name negate) ! i,
               uint (contrasted_image lib img negate ! i)) of
           ((r, g, b), (cr, cg, cb, ca), p) \<Rightarrow>
             0 \<le> p \<and> p \<le> 255
             \<and> 0 \<le> r \<and> r \<le> 255 \<and> 0 \<le> g \<and> g \<le> 255 \<and> 0 \<le> b \<and> b \<le> 255
             \<and> uint cr = min 255 (p + r) \<and> uint cg = min 255 (p + g)
             \<and> uint cb = min 255 (p + b)"
    using pr cr by (simp add: rgb px p_def [symmetric] additive_channel_value)
qed

theorem additive_clamp_law_witness:
  "uint (additive_channel 200 100) = 255 \<and> wrap_int32 (200 + 100) = 300
   \<and> COLORS_get ''navy_blue'' = (16, 43, 78)
   \<and> contrasted_image example_pillow example_mask True = [255, 0]
   \<and> img_data (colorize_image example_pillow example_mask ''navy_blue'' True)
       = [(255, 255, 255, 255), (16, 43, 78, 0)]
   \<and> img_data (colorize example_pillow example_mask ''navy_blue'' True)
       = [(255, 255, 255, 255), (16, 43, 78, 0)]"
proof -
  have a: "uint (additive_channel 200 100) = 255 \<and> wrap_int32 (200 + 100) = 300"
    using additive_clamp_law [THEN conjunct1, rule_format, of 200 100] by simp
  have c: "COLORS_get ''navy_blue'' = (16, 43, 78)"
    by (simp add: COLORS_get_def COLORS_def)
  have g: "contrasted_image example_pillow example_mask True = [255, 0]"
    by code_simp
  have l: "length (img_data example_mask) = 2" by (simp add: example_mask_def)
  have l': "length (img_data (colorize_image example_pillow example_mask ''navy_blue'' True)) = 2"
    by code_simp
  obtain x y where xy: "img_data (colorize_image example_pillow example_mask ''navy_blue'' True) = [x, y]"
    using l' by (auto simp: length_Suc_conv numeral_2_eq_2)
  obtain xr xg xb xa where x: "x = (xr, xg, xb, xa)" by (cases x) auto
  obtain yr yg yb ya where y: "y = (yr, yg, yb, ya)" by (cases y) auto
  have alpha: "split_alpha (colorize_image example_pillow example_mask ''navy_blue'' True) = [255, 0]"
    by code_simp
  have "uint xr = 255 \<and> uint xg = 255 \<and> uint xb = 255"
    using additive_clamp_law [THEN conjunct2, THEN conjunct1, rule_format, where i = 0
        and img = example_mask and lib = example_pillow and color_name = "''navy_blue''"
        and negate = True]
    by (simp add: l c g xy x)
  moreover have "uint yr = 16 \<and> uint yg = 43 \<and> uint yb = 78"
    using additive_clamp_law [THEN conjunct2, THEN conjunct1, rule_format, where i = 1
        and img = example_mask and lib = example_pillow and color_name = "''navy_blue''"
        and negate = True]
    by (simp add: l c g xy y)
  moreover have "xa = 255 \<and> ya = 0" using alpha by (simp add: split_alpha_def xy x y)
  ultimately have first: "img_data (colorize_image example_pillow example_mask ''navy_blue'' True)
       = [(255, 255, 255, 255), (16, 43, 78, 0)]"
    using xy x y by (simp add: word_uint_eq_iff)
  have m': "length (img_data (colorize example_pillow example_mask ''navy_blue'' True)) = 2"
    by code_simp
  obtain u v where uv: "img_data (colorize example_pillow example_mask ''navy_blue'' True) = [u, v]"
    using m' by (auto simp: length_Suc_conv numeral_2_eq_2)
  obtain ur ug ub ua where u: "u = (ur, ug, ub, ua)" by (cases u) auto
  obtain vr vg vb va where v: "v = (vr, vg, vb, va)" by (cases v) auto
  have alpha': "split_alpha (colorize example_pillow example_mask ''navy_blue'' True) = [255, 0]"
    by code_simp
  have "uint ur = 255 \<and> uint ug = 255 \<and> uint ub = 255"
    using additive_clamp_law [THEN conjunct2, THEN conjunct2, rule_format, where i = 0
        and img = example_mask and lib = example_pillow and color_name = "''navy_blue''"
        and negate = True]
    by (simp add: l c g uv u)
  moreover have "uint vr = 16 \<and> uint vg = 43 \<and> uint vb = 78"
    using additive_clamp_law [THEN conjunct2, THEN conjunct2, rule_format, where i = 1
        and img = example_mask and lib = example_pillow and color_name = "''navy_blue''"
        and negate = True]
    by (simp add: l c g uv v)
  moreover have "ua = 255 \<and> va = 0" using alpha' by (simp add: split_alpha_def uv u v)
  ultimately have second: "img_data (colorize example_pillow example_mask ''navy_blue'' True)
       = [(255, 255, 255, 255), (16, 43, 78, 0)]"
    using uv u v by (simp add: word_uint_eq_iff)
  from a c g first second show ?thesis by simp
qed

text \<open>
  C3. The alpha channel. For every image, colour name and invert flag, the alpha channel
  and the size of the output of \<open>colorize_image\<close> (and of the nested \<open>colorize\<close> of the
  on-demand path) are those of the input. No pixel is treated specially for its alpha: the
  colour channels of the output do not depend on the input's alpha channel at all, so a
  fully transparent pixel receives the same colour as an opaque one.
\<close>

theorem colorize_preserves_alpha:
  "split_alpha (colorize_image lib img color_name negate) = split_alpha img
   \<and> img_size (colorize_image lib img color_name negate) = img_size img
   \<and> split_alpha (colorize lib img color_name negate) = split_alpha img
   \<and> map (\<lambda>(r, g, b, a). (r, g, b))
        (img_data (colorize_image lib
           (img\<lparr>img_data := map (\<lambda>(r, g, b, a). (r, g, b, f a)) (img_data img)\<rparr>)
           color_name negate))
     = map (\<lambda>(r, g, b, a). (r, g, b)) (img_data (colorize_image lib img color_name negate))"
proof -
  obtain r g b where rgb: "COLORS_get color_name = (r, g, b)"
    by (cases "COLORS_get color_name") auto
  have alpha: "split_alpha (colorize_image lib img color_name negate) = split_alpha img"
    by (rule nth_equalityI)
       (simp_all add: split_alpha_def colorize_image_def Let_def rgb putalpha_def
          length_contrasted)
  have size: "img_size (colorize_image lib img color_name negate) = img_size img"
    by (simp add: colorize_image_def Let_def rgb)
  let ?img' = "img\<lparr>img_data := map (\<lambda>(r, g, b, a). (r, g, b, f a)) (img_data img)\<rparr>"
  have gray: "contrasted_image lib ?img' negate = contrasted_image lib img negate"
    by (simp add: contrasted_image_def Let_def case_prod_unfold comp_def)
  have "map (\<lambda>(r, g, b, a). (r, g, b)) (img_data (colorize_image lib ?img' color_name negate))
        = map (\<lambda>(r, g, b, a). (r, g, b)) (img_data (colorize_image lib img color_name negate))"
    by (rule nth_equalityI)
       (simp_all add: colorize_image_def Let_def rgb putalpha_def split_alpha_def gray
          length_contrasted)
  with alpha size show ?thesis by (simp add: colorize_eq)
qed

section \<open>The two renderers\<close>

lemma open_first_append:
  "open_first lib cache (ps @ qs) =
     (case open_first lib cache ps of Some img \<Rightarrow> Some img | None \<Rightarrow> open_first lib cache qs)"
  by (induction ps) (auto split: option.splits)

lemma open_first_None_member:
  "open_first lib cache ps = None \<Longrightarrow> p \<in> set ps \<Longrightarrow> open_first lib cache [p] = None"
  by (induction ps) (auto split: option.splits)

lemma open_first_append_dup:
  "p \<in> set ps \<Longrightarrow> open_first lib cache (ps @ [p]) = open_first lib cache ps"
  using open_first_None_member [of lib cache ps p]
  by (cases "open_first lib cache ps") (simp_all add: open_first_append)

lemma get_mask_normalized:
  "get_mask lib cache (normalize_model_name model) layer
   = get_mask_single lib cache (normalize_model_name model) layer"
proof -
  let ?m = "normalize_model_name model"
  have "open_first lib cache ([mask_path ?m layer, mask_path (lower ?m) layer,
            mask_path (upper ?m) layer] @ [mask_path ?m layer])
        = open_first lib cache [mask_path ?m layer, mask_path (lower ?m) layer,
            mask_path (upper ?m) layer]"
    by (rule open_first_append_dup) simp
  moreover have "normalize_model_name ?m = ?m"
    using normalize_model_name_no_pattern [of model]
    by (intro normalize_model_name_fixed) simp_all
  ultimately show ?thesis
    by (simp add: get_mask_def get_mask_single_def Let_def)
qed

lemma foldl_snd:
  "foldl (\<lambda>result (name, layer). f result layer) r layers = foldl f r (map snd layers)"
  by (induction layers arbitrary: r) (auto simp: case_prod_unfold)

lemma case_append_layer:
  "(case g of None \<Rightarrow> l | Some x \<Rightarrow> l @ [a x]) = l @ (case g of None \<Rightarrow> [] | Some x \<Rightarrow> [a x])"
  by (cases g) simp_all

lemma if_append_layer: "(if c then l @ [u] else l @ [v]) = l @ [if c then u else v]"
  by simp

lemma map_snd_case_layer:
  "map snd (case g of None \<Rightarrow> [] | Some x \<Rightarrow> [(n, a x)]) = (case g of None \<Rightarrow> [] | Some x \<Rightarrow> [a x])"
  by (cases g) simp_all

lemma map_snd_case_layer_if:
  "map snd (case g of None \<Rightarrow> [] | Some x \<Rightarrow> [if c then (n, a x) else (n', b x)])
   = (case g of None \<Rightarrow> [] | Some x \<Rightarrow> [if c then a x else b x])"
  by (cases g) simp_all

lemma layers_eq:
  "map snd (generate_image_layers lib cache model primary accent leds)
   = single_image_layers lib cache model primary accent leds"
  unfolding generate_image_layers_def single_image_layers_def Let_def get_mask_normalized colorize_eq
    case_append_layer if_append_layer
  by (simp only: map_append map_snd_case_layer map_snd_case_layer_if list.map append_Nil)

text \<open>
  C7. The on-demand path and the batch worker render the same image. For every library,
  mask cache, model, primary, accent and LED colour and width, the rendering statements of
  \<open>generate_single_image\<close> give the bytes \<open>generate_image\<close> gives (and fail to find a layer
  exactly when it does). Both resolve a layer of the normalised model to the same mask: the
  fourth path of \<open>ImageGenerator.get_mask\<close> is, for a normalised model, its first path
  again, because normalising twice is normalising once.
\<close>

theorem render_single_eq_generate_image:
  "render_single lib cache model primary accent leds width
     = generate_image lib cache model primary accent leds width
   \<and> get_mask_single lib cache (normalize_model_name model) layer
     = get_mask lib cache (normalize_model_name model) layer"
proof -
  define bl where "bl = generate_image_layers lib cache model primary accent leds"
  have sl: "single_image_layers lib cache model primary accent leds = map snd bl"
    by (simp add: bl_def layers_eq)
  have "render_single lib cache model primary accent leds width
     = generate_image lib cache model primary accent leds width"
    unfolding render_single_def generate_image_def sl bl_def [symmetric]
    by (cases bl) (simp_all add: Let_def foldl_snd [symmetric] case_prod_unfold)
  then show ?thesis by (simp add: get_mask_normalized)
qed

section \<open>The batch worker\<close>

lemma and_then_simps [simp]:
  "and_then (Raised e, w) f = (Raised e, w)"
  "and_then (Returned x, w) f = f x w"
  by (simp_all add: and_then_def)

lemma try_except_simps [simp]:
  "try_except (Raised e, w) h = h e w"
  "try_except (Returned x, w) h = (Returned x, w)"
  by (simp_all add: try_except_def)

lemma and_then_db_request:
  "and_then (db_request w) f =
     (if db_faults w \<noteq> [] \<and> hd (db_faults w) then (Raised DbError, w\<lparr>db_faults := tl (db_faults w)\<rparr>)
      else f () (w\<lparr>db_faults := tl (db_faults w)\<rparr>))"
  by (simp add: db_request_def)

lemma and_then_s3_request:
  "and_then (s3_request w) f =
     (if s3_faults w \<noteq> [] \<and> hd (s3_faults w) then (Raised S3Error, w\<lparr>s3_faults := tl (s3_faults w)\<rparr>)
      else f () (w\<lparr>s3_faults := tl (s3_faults w)\<rparr>))"
  by (simp add: s3_request_def)

lemma update_task_status_body_frame:
  "update_task_status_body c tid st key fs err w = (r, w') \<Longrightarrow>
   cache_files w' = cache_files w \<and> bucket w' = bucket w \<and> s3_faults w' = s3_faults w
   \<and> length (tasks w') = length (tasks w)"
  unfolding update_task_status_body_def and_then_db_request
  by (auto split: list.splits if_splits)

lemma update_task_status_returns:
  "\<exists>w'. update_task_status c tid st key fs err w = (Returned (), w')
        \<and> cache_files w' = cache_files w \<and> bucket w' = bucket w \<and> s3_faults w' = s3_faults w
        \<and> length (tasks w') = length (tasks w)"
proof -
  obtain r w1 where b: "update_task_status_body c tid st key fs err w = (r, w1)"
    by (cases "update_task_status_body c tid st key fs err w") auto
  from update_task_status_body_frame [OF b] show ?thesis
    by (cases r) (simp_all add: update_task_status_def b)
qed

lemma process_task_returns:
  "\<exists>res w'. process_task lib c t results w = (Returned res, w')
     \<and> success res + failed res = Suc (success results + failed results)"
proof -
  obtain w1 where u1: "update_task_status c (task_id t) Processing None None None w = (Returned (), w1)"
    using update_task_status_returns by blast
  obtain w2 where u2: "update_task_status c (task_id t) Failed None None
                             (Some ''No layers found for model'') w1 = (Returned (), w2)"
    using update_task_status_returns by blast
  define img where "img = generate_image lib (cache_files w1) (task_model t) (primary_color t)
                               (accent_color t) (led_color t) (task_width t)"
  have nl: "img = None \<or> img = Some [] \<Longrightarrow> ?thesis"
    by (auto simp: process_task_def process_task_body_def u1 u2 Let_def img_def [symmetric])
  have ok: "?thesis" if "img = Some bytes" "bytes \<noteq> []" for bytes
  proof -
    let ?key = "output_key (task_model t) (primary_color t) (accent_color t) (led_color t)"
    obtain r w3 where p: "put_object ?key bytes w1 = (r, w3)"
      by (cases "put_object ?key bytes w1") auto
    show ?thesis
    proof (cases r)
      case (Raised e)
      obtain w4 where u4: "update_task_status c (task_id t) Failed None None (Some (str_exn e)) w3
           = (Returned (), w4)"
        using update_task_status_returns by blast
      show ?thesis using that Raised
        by (simp add: process_task_def process_task_body_def u1 Let_def img_def [symmetric] p u4)
    next
      case (Returned u)
      obtain w4 where u4: "update_task_status c (task_id t) Completed (Some ?key)
                                          (Some (length bytes)) None w3 = (Returned (), w4)"
        using update_task_status_returns by blast
      show ?thesis using that Returned
        by (simp add: process_task_def process_task_body_def u1 Let_def img_def [symmetric] p u4)
    qed
  qed
  show ?thesis
  proof (cases img)
    case None
    then show ?thesis using nl by simp
  next
    case (Some bytes)
    then show ?thesis using nl ok by (cases "bytes = []") auto
  qed
qed

lemma process_tasks_returns:
  "\<exists>res w'. process_tasks lib c ts results w = (Returned res, w')
     \<and> success res + failed res = success results + failed results + length ts"
proof (induction ts arbitrary: results w)
  case Nil
  then show ?case by simp
next
  case (Cons t ts)
  obtain res1 w1 where s1: "process_task lib c t results w = (Returned res1, w1)"
    and n1: "success res1 + failed res1 = Suc (success results + failed results)"
    using process_task_returns by blast
  from Cons.IH [of res1 w1] obtain res w' where
    "process_tasks lib c ts res1 w1 = (Returned res, w')"
    "success res + failed res = success res1 + failed res1 + length ts" by blast
  with s1 n1 show ?case by simp
qed

lemma process_task_uploaded:
  assumes img: "generate_image lib (cache_files w) (task_model t) (primary_color t)
                  (accent_color t) (led_color t) (task_width t) = Some bytes"
    and ne: "bytes \<noteq> []"
    and s3: "fst (s3_request w) = Returned ()"
  shows "\<exists>w'. process_task lib c t results w
           = (Returned (results\<lparr>success := success results + 1\<rparr>), w')
         \<and> map_of (bucket w') (output_key (task_model t) (primary_color t) (accent_color t)
                                  (led_color t)) = Some bytes"
proof -
  let ?key = "output_key (task_model t) (primary_color t) (accent_color t) (led_color t)"
  obtain w1 where u1: "update_task_status c (task_id t) Processing None None None w = (Returned (), w1)"
    and f1: "cache_files w1 = cache_files w" "bucket w1 = bucket w" "s3_faults w1 = s3_faults w"
    using update_task_status_returns by blast
  from s3 f1 have nofault: "\<not> (s3_faults w1 \<noteq> [] \<and> hd (s3_faults w1))"
    by (auto simp: s3_request_def split: if_splits)
  define w2 where "w2 = w1\<lparr>s3_faults := tl (s3_faults w1),
                           bucket := AList.update ?key bytes (bucket w1)\<rparr>"
  have p: "put_object ?key bytes w1 = (Returned (), w2)"
    using nofault by (simp add: put_object_def and_then_s3_request w2_def)
  obtain w3 where u3: "update_task_status c (task_id t) Completed (Some ?key)
                                          (Some (length bytes)) None w2 = (Returned (), w3)"
    and f3: "bucket w3 = bucket w2"
    using update_task_status_returns by blast
  have "map_of (bucket w3) ?key = Some bytes"
    by (simp add: f3 w2_def update_conv')
  moreover have "process_task lib c t results w
           = (Returned (results\<lparr>success := success results + 1\<rparr>), w3)"
    using img ne by (simp add: process_task_def process_task_body_def u1 f1 Let_def p u3)
  ultimately show ?thesis by blast
qed

text \<open>
  C10. \<open>update_task_status\<close> always returns: whatever the task store does during the
  status write, no exception leaves the function. So \<open>process_batch\<close> always returns too,
  and every task counts once, as a success or as a failure. A task whose image was rendered
  and whose upload succeeded counts as a success whatever happens to the requests to the task
  store, the write of its \<open>completed\<close> status included.
\<close>

theorem update_task_status_total:
  "fst (update_task_status container tid st key file_size error w) = Returned ()
   \<and> (\<exists>res. fst (process_batch lib container task_list w) = Returned res
          \<and> success res + failed res = length task_list)
   \<and> (generate_image lib (cache_files w) (task_model t) (primary_color t) (accent_color t)
         (led_color t) (task_width t) = Some bytes
       \<and> bytes \<noteq> [] \<and> fst (s3_request w) = Returned ()
       \<longrightarrow> fst (process_batch lib container [t] w)
             = Returned \<lparr>success = 1, failed = 0, skipped = 0, errors = []\<rparr>
           \<and> map_of (bucket (snd (process_batch lib container [t] w)))
               (output_key (task_model t) (primary_color t) (accent_color t) (led_color t))
             = Some bytes)"
proof (intro conjI impI)
  show "fst (update_task_status container tid st key file_size error w) = Returned ()"
    using update_task_status_returns [of container tid st key file_size error w] by auto
next
  show "\<exists>res. fst (process_batch lib container task_list w) = Returned res
          \<and> success res + failed res = length task_list"
    using process_tasks_returns [of lib container task_list
        "\<lparr>success = 0, failed = 0, skipped = 0, errors = []\<rparr>" w]
    by (auto simp: process_batch_def)
next
  assume a: "generate_image lib (cache_files w) (task_model t) (primary_color t) (accent_color t)
         (led_color t) (task_width t) = Some bytes
       \<and> bytes \<noteq> [] \<and> fst (s3_request w) = Returned ()"
  then obtain w' where
    p: "process_task lib container t \<lparr>success = 0, failed = 0, skipped = 0, errors = []\<rparr> w
          = (Returned (\<lparr>success = 0, failed = 0, skipped = 0, errors = []\<rparr>
                        \<lparr>success := success \<lparr>success = 0, failed = 0, skipped = 0, errors = []\<rparr> + 1\<rparr>),
             w')"
    and b: "map_of (bucket w') (output_key (task_model t) (primary_color t) (accent_color t)
                                  (led_color t)) = Some bytes"
    using process_task_uploaded by blast
  from p show "fst (process_batch lib container [t] w)
             = Returned \<lparr>success = 1, failed = 0, skipped = 0, errors = []\<rparr>"
    by (simp add: process_batch_def)
  from p b show "map_of (bucket (snd (process_batch lib container [t] w)))
               (output_key (task_model t) (primary_color t) (accent_color t) (led_color t))
             = Some bytes"
    by (simp add: process_batch_def)
qed

theorem update_task_status_total_witness:
  "generate_image example_pillow (cache_files (example_world\<lparr>db_faults := [False, False, True]\<rparr>))
      (task_model example_task) (primary_color example_task) (accent_color example_task)
      (led_color example_task) (task_width example_task)
     = Some [2, 1, 10, 10, 10, 255, 0, 0, 0, 0]
   \<and> fst (s3_request (example_world\<lparr>db_faults := [False, False, True]\<rparr>)) = Returned ()
   \<and> fst (process_batch example_pillow ''c1'' [example_task]
            (example_world\<lparr>db_faults := [False, False, True]\<rparr>))
     = Returned \<lparr>success = 1, failed = 0, skipped = 0, errors = []\<rparr>
   \<and> map task_status
        (tasks (snd (process_batch example_pillow ''c1'' [example_task]
                       (example_world\<lparr>db_faults := [False, False, True]\<rparr>))))
     = [Processing]"
proof -
  let ?w = "example_world\<lparr>db_faults := [False, False, True]\<rparr>"
  have g: "generate_image example_pillow (cache_files ?w)
      (task_model example_task) (primary_color example_task) (accent_color example_task)
      (led_color example_task) (task_width example_task)
     = Some [2, 1, 10, 10, 10, 255, 0, 0, 0, 0]"
    by code_simp
  have s: "fst (s3_request ?w) = Returned ()"
    by code_simp
  have st: "map task_status (tasks (snd (process_batch example_pillow ''c1'' [example_task] ?w)))
     = [Processing]"
    by code_simp
  have "fst (process_batch example_pillow ''c1'' [example_task] ?w)
     = Returned \<lparr>success = 1, failed = 0, skipped = 0, errors = []\<rparr>"
    using update_task_status_total [where w = ?w and lib = example_pillow and t = example_task
        and bytes = "[2, 1, 10, 10, 10, 255, 0, 0, 0, 0]" and container = "''c1''"] g s
    by simp
  with g s st show ?thesis by simp
qed

section \<open>The population of the task store\<close>

declare fetch_existing.simps [simp del] insert_batches.simps [simp del] chunks.simps [simp del]

lemma db_request_frame:
  "db_request w = (r, w') \<Longrightarrow>
   w' = w\<lparr>db_faults := tl (db_faults w)\<rparr> \<and> (True \<notin> set (db_faults w) \<longrightarrow> r = Returned ())"
  by (cases "db_faults w") (auto simp: db_request_def split: if_splits)

lemma no_fault_tl: "True \<notin> set fs \<Longrightarrow> True \<notin> set (tl fs)"
  by (cases fs) auto

lemma fetch_existing_unfold:
  assumes "db_request w = (Returned u, w1)" "data = take page_size (drop offset (tasks w1))"
  shows "fetch_existing offset existing w =
     (if data = [] then (Returned existing, w1)
      else if length data < page_size then (Returned (existing \<union> set (map identity_of data)), w1)
      else fetch_existing (offset + page_size) (existing \<union> set (map identity_of data)) w1)"
  by (subst fetch_existing.simps) (simp add: assms Let_def)

lemma fetch_existing_raised:
  assumes "db_request w = (Raised e, w1)"
  shows "fetch_existing offset existing w = (Raised e, w1)"
  by (subst fetch_existing.simps) (simp add: assms)

lemma fetch_existing_result:
  "fetch_existing offset existing w = (r, w') \<Longrightarrow>
   tasks w' = tasks w \<and> next_id w' = next_id w \<and> set (db_faults w') \<subseteq> set (db_faults w)
   \<and> (\<forall>ex. r = Returned ex \<longrightarrow> ex = existing \<union> set (map identity_of (drop offset (tasks w))))
   \<and> (True \<notin> set (db_faults w) \<longrightarrow> (\<exists>ex. r = Returned ex))"
proof (induction offset existing w arbitrary: r w' rule: fetch_existing.induct)
  case (1 offset existing w)
  obtain r1 w1 where d: "db_request w = (r1, w1)" by (cases "db_request w") auto
  from db_request_frame [OF d] have w1: "w1 = w\<lparr>db_faults := tl (db_faults w)\<rparr>"
    and ok: "True \<notin> set (db_faults w) \<longrightarrow> r1 = Returned ()" by auto
  have sub: "set (db_faults w1) \<subseteq> set (db_faults w)"
    unfolding w1 by (cases "db_faults w") auto
  have t1: "tasks w1 = tasks w" "next_id w1 = next_id w" by (simp_all add: w1)
  show ?case
  proof (cases r1)
    case (Raised e)
    with d have "fetch_existing offset existing w = (Raised e, w1)"
      by (simp add: fetch_existing_raised)
    with "1.prems" ok sub t1 Raised show ?thesis by auto
  next
    case (Returned u)
    define data where "data = take page_size (drop offset (tasks w1))"
    note unf = fetch_existing_unfold [OF d [unfolded Returned] data_def, of existing]
    show ?thesis
    proof (cases "data = []")
      case True
      then have "drop offset (tasks w) = []" by (auto simp: data_def page_size_def t1)
      with "1.prems" unf True sub t1 show ?thesis by auto
    next
      case False
      show ?thesis
      proof (cases "length data < page_size")
        case True
        then have "data = drop offset (tasks w)" by (simp add: data_def t1)
        with "1.prems" unf False True sub t1 show ?thesis by auto
      next
        case full: False
        from "1.prems" unf False full
        have rec: "fetch_existing (offset + page_size) (existing \<union> set (map identity_of data)) w1
                   = (r, w')"
          by simp
        have split: "drop offset (tasks w) = data @ drop (offset + page_size) (tasks w)"
          unfolding data_def t1 by (metis append_take_drop_id drop_drop add.commute)
        have un: "set (map identity_of (drop offset (tasks w)))
              = set (map identity_of data) \<union> set (map identity_of (drop (offset + page_size) (tasks w)))"
          by (subst split) (simp only: map_append set_append)
        have ih: "tasks w' = tasks w1 \<and> next_id w' = next_id w1
            \<and> set (db_faults w') \<subseteq> set (db_faults w1)
            \<and> (\<forall>ex. r = Returned ex \<longrightarrow>
                  ex = existing \<union> set (map identity_of data)
                       \<union> set (map identity_of (drop (offset + page_size) (tasks w1))))
            \<and> (True \<notin> set (db_faults w1) \<longrightarrow> (\<exists>ex. r = Returned ex))"
          using "1.IH" [OF d [symmetric] Returned data_def False refl full rec] by simp
        show ?thesis using ih un sub t1 by (auto simp: Un_assoc)
      qed
    qed
  qed
qed


lemma fetch_existing_raised_is_db:
  "fetch_existing offset existing w = (Raised e, w') \<Longrightarrow> e = DbError"
proof (induction offset existing w rule: fetch_existing.induct)
  case (1 offset existing w)
  obtain r1 w1 where d: "db_request w = (r1, w1)" by (cases "db_request w") auto
  show ?case
  proof (cases r1)
    case (Raised e1)
    with d "1.prems" show ?thesis
      by (auto simp: fetch_existing_raised db_request_def split: if_splits)
  next
    case (Returned u)
    define data where "data = take page_size (drop offset (tasks w1))"
    note unf = fetch_existing_unfold [OF d [unfolded Returned] data_def, of existing]
    show ?thesis
    proof (cases "data = [] \<or> length data < page_size")
      case True
      with "1.prems" unf show ?thesis by (auto split: if_splits)
    next
      case False
      with "1.prems" unf
      have "fetch_existing (offset + page_size) (existing \<union> set (map identity_of data)) w1
            = (Raised e, w')" by simp
      with "1.IH" [OF d [symmetric] Returned data_def _ refl] False show ?thesis by simp
    qed
  qed
qed

lemma identity_of_new_row: "identity_of (new_row n c) = c"
  by (cases c) (simp add: identity_of_def new_row_def)

lemma identity_of_insert_rows:
  "map identity_of (tasks (insert_rows batch w)) = map identity_of (tasks w) @ batch"
proof -
  have "map identity_of (map (\<lambda>(i, c). new_row (next_id w + i) c) (enumerate 0 batch))
        = map snd (enumerate 0 batch)"
    by (rule nth_equalityI) (simp_all add: identity_of_new_row nth_enumerate_eq)
  then show ?thesis by (simp add: insert_rows_def)
qed

lemma identity_of_reset: "map identity_of (reset_failed_tasks rows) = map identity_of rows"
  by (simp add: reset_failed_tasks_def identity_of_def)

lemma insert_batches_result:
  "\<exists>ins. map identity_of (tasks (insert_batches new w)) = map identity_of (tasks w) @ ins
         \<and> subseq ins new \<and> (True \<notin> set (db_faults w) \<longrightarrow> ins = new)"
proof (induction new w rule: insert_batches.induct)
  case (1 new w)
  show ?case
  proof (cases "new = []")
    case True
    then show ?thesis by (subst insert_batches.simps) simp
  next
    case False
    obtain r1 w1 where d: "db_request w = (r1, w1)" by (cases "db_request w") auto
    from db_request_frame [OF d] have w1: "w1 = w\<lparr>db_faults := tl (db_faults w)\<rparr>"
      and ok: "True \<notin> set (db_faults w) \<longrightarrow> r1 = Returned ()" by auto
    have nf: "True \<notin> set (db_faults w) \<Longrightarrow> True \<notin> set (db_faults w1)"
      unfolding w1 using no_fault_tl by simp
    have new: "new = take 500 new @ drop 500 new" by simp
    show ?thesis
    proof (cases r1)
      case (Raised e)
      have unf: "insert_batches new w = insert_batches (drop 500 new) w1"
        using False d Raised by (subst insert_batches.simps) (simp add: Let_def)
      from "1.IH"(1) [OF False refl d [symmetric] Raised]
      obtain ins where i: "map identity_of (tasks (insert_batches (drop 500 new) w1))
          = map identity_of (tasks w1) @ ins" "subseq ins (drop 500 new)" by blast
      from i(2) have "subseq ins (take 500 new @ drop 500 new)"
        by (rule subseq_drop_many)
      then have "subseq ins new" by simp
      with i(1) ok Raised show ?thesis unfolding unf by (auto simp: w1)
    next
      case (Returned u)
      have unf: "insert_batches new w = insert_batches (drop 500 new) (insert_rows (take 500 new) w1)"
        using False d Returned by (subst insert_batches.simps) (simp add: Let_def)
      have f2: "db_faults (insert_rows (take 500 new) w1) = db_faults w1"
        by (simp add: insert_rows_def)
      from "1.IH"(2) [OF False refl d [symmetric] Returned]
      obtain ins where i: "map identity_of (tasks (insert_batches (drop 500 new)
                                (insert_rows (take 500 new) w1)))
          = map identity_of (tasks (insert_rows (take 500 new) w1)) @ ins"
        "subseq ins (drop 500 new)"
        "True \<notin> set (db_faults w1) \<longrightarrow> ins = drop 500 new"
        unfolding f2 by blast
      have s: "subseq (take 500 new @ ins) (take 500 new @ drop 500 new)"
        by (rule iffD2 [OF subseq_append' i(2)])
      have "map identity_of (tasks (insert_batches new w))
            = map identity_of (tasks w) @ (take 500 new @ ins)"
        unfolding unf i(1) identity_of_insert_rows by (simp add: w1)
      moreover have "subseq (take 500 new @ ins) new" using s by simp
      moreover have "True \<notin> set (db_faults w) \<longrightarrow> take 500 new @ ins = new"
        using i(3) nf by auto
      ultimately show ?thesis by blast
    qed
  qed
qed

lemma upsert_models_tasks: "tasks (upsert_models models w) = tasks w"
proof (induction models arbitrary: w)
  case Nil
  then show ?case by simp
next
  case (Cons m ms)
  obtain r1 w1 where d: "db_request w = (r1, w1)" by (cases "db_request w") auto
  from db_request_frame [OF d] have w1: "w1 = w\<lparr>db_faults := tl (db_faults w)\<rparr>" by auto
  show ?case by (cases r1) (simp_all add: d Let_def Cons.IH w1)
qed

lemma set_new_tasks_of:
  "set (new_tasks_of models existing)
   = {(m, p, a, l). m \<in> set models \<and> p \<in> set UI_COLORS \<and> a \<in> set ACCENT_COLORS
        \<and> l \<in> set LED_COLORS} - existing"
  by (auto simp: new_tasks_of_def)

lemma new_tasks_of_covered:
  "new_tasks_of models (existing \<union> set (new_tasks_of models existing)) = []"
proof -
  have "set (new_tasks_of models (existing \<union> set (new_tasks_of models existing))) = {}"
    unfolding set_new_tasks_of by auto
  then show ?thesis by simp
qed


lemma populate_tasks_result:
  assumes "populate_tasks models reset_failed w = (r, w')"
  defines "new \<equiv> new_tasks_of models (set (map identity_of (tasks w)))"
  shows "\<exists>ins. map identity_of (tasks w') = map identity_of (tasks w) @ ins
           \<and> subseq ins new
           \<and> (r = Raised DbError \<and> ins = [] \<or> r = Returned (length new))
           \<and> (True \<notin> set (db_faults w) \<longrightarrow> r = Returned (length new) \<and> ins = new)"
proof -
  \<comment> \<open>the reset\<close>
  obtain r0 w0 where reset:
    "(if reset_failed
      then and_then (db_request w) (\<lambda>_ w. (Returned (), w\<lparr>tasks := reset_failed_tasks (tasks w)\<rparr>))
      else (Returned (), w)) = (r0, w0)"
    by (cases "if reset_failed
      then and_then (db_request w) (\<lambda>_ w. (Returned (), w\<lparr>tasks := reset_failed_tasks (tasks w)\<rparr>))
      else (Returned (), w)") auto
  have r0: "map identity_of (tasks w0) = map identity_of (tasks w)"
    "set (db_faults w0) \<subseteq> set (db_faults w)"
    "r0 = Raised DbError \<or> r0 = Returned ()"
    "True \<notin> set (db_faults w) \<longrightarrow> r0 = Returned ()"
    using reset
    by (cases "db_faults w"; auto simp: and_then_db_request identity_of_reset split: if_splits)+
  show ?thesis
  proof (cases r0)
    case (Raised e)
    with assms(1) reset have "r = Raised e" "w' = w0"
      by (simp_all add: populate_tasks_def)
    with r0 Raised show ?thesis by auto
  next
    case (Returned u)
    obtain r1 w1 where f: "fetch_existing 0 {} w0 = (r1, w1)"
      by (cases "fetch_existing 0 {} w0") auto
    note fr = fetch_existing_result [OF f]
    show ?thesis
    proof (cases r1)
      case (Raised e)
      with assms(1) reset Returned f have "r = Raised e" "w' = w1"
        by (simp_all add: populate_tasks_def)
      moreover have "e = DbError"
        using f Raised by (auto dest: fetch_existing_raised_is_db)
      ultimately show ?thesis using fr r0 Raised by auto
    next
      case ex: (Returned existing)
      with fr r0 have existing: "existing = set (map identity_of (tasks w))"
        by (metis drop0 list.set_map sup_bot_left set_map)
      from assms(1) reset Returned f ex
      have res: "r = Returned (length new)"
        "w' = upsert_models models (insert_batches new w1)"
        by (simp_all add: populate_tasks_def Let_def existing new_def)
      obtain ins where i: "map identity_of (tasks (insert_batches new w1))
          = map identity_of (tasks w1) @ ins" "subseq ins new"
        "True \<notin> set (db_faults w1) \<longrightarrow> ins = new"
        using insert_batches_result by blast
      have "map identity_of (tasks w') = map identity_of (tasks w) @ ins"
        using i(1) fr r0 by (simp add: res upsert_models_tasks)
      moreover have "True \<notin> set (db_faults w) \<longrightarrow> ins = new"
        using i(3) fr r0 by auto
      ultimately show ?thesis using i(2) res by blast
    qed
  qed
qed

lemma distinct_concat_map:
  assumes "distinct xs" "\<And>x. x \<in> set xs \<Longrightarrow> distinct (g x)"
    and "\<And>x y. x \<in> set xs \<Longrightarrow> y \<in> set xs \<Longrightarrow> x \<noteq> y \<Longrightarrow> set (g x) \<inter> set (g y) = {}"
  shows "distinct (concat (map g xs))"
  using assms
proof (induction xs)
  case Nil
  then show ?case by simp
next
  case (Cons x xs)
  have "set (g x) \<inter> set (g y) = {}" if "y \<in> set xs" for y
    using Cons.prems(1) Cons.prems(3) [of x y] that by auto
  moreover have "distinct (concat (map g xs))"
    using Cons by auto
  ultimately show ?case using Cons.prems(2) [of x] by auto
qed

lemma distinct_colors:
  "distinct UI_COLORS" "distinct ACCENT_COLORS" "distinct LED_COLORS"
  by (simp_all add: UI_COLORS_def ACCENT_COLORS_def LED_COLORS_def COLORS_def)

lemma distinct_new_tasks_of: "distinct models \<Longrightarrow> distinct (new_tasks_of models existing)"
  unfolding new_tasks_of_def
  by (intro distinct_concat_map distinct_colors) auto



lemma length_concat_map_const:
  "(\<And>x. x \<in> set xs \<Longrightarrow> length (g x) = k) \<Longrightarrow> length (concat (map g xs)) = length xs * k"
  by (induction xs) auto

lemma length_colors:
  "length UI_COLORS = 18" "length ACCENT_COLORS = 19" "length LED_COLORS = 2"
  by (simp_all add: UI_COLORS_def ACCENT_COLORS_def LED_COLORS_def COLORS_def)

lemma length_new_tasks_of_empty: "length (new_tasks_of models {}) = length models * 684"
proof -
  have "length (new_tasks_of models {})
        = length models * (length UI_COLORS * (length ACCENT_COLORS * (length LED_COLORS * 1)))"
    unfolding new_tasks_of_def
    by (intro length_concat_map_const) simp_all
  then show ?thesis by (simp add: length_colors)
qed

lemma insert_batches_all_fail:
  "db_faults w = replicate k True @ rest \<Longrightarrow> length new \<le> 500 * k \<Longrightarrow>
   tasks (insert_batches new w) = tasks w"
proof (induction k arbitrary: new w)
  case 0
  then show ?case by (subst insert_batches.simps) simp
next
  case (Suc k)
  show ?case
  proof (cases "new = []")
    case True
    then show ?thesis by (subst insert_batches.simps) simp
  next
    case False
    let ?w1 = "w\<lparr>db_faults := replicate k True @ rest\<rparr>"
    have d: "db_request w = (Raised DbError, ?w1)"
      using Suc.prems(1) by (simp add: db_request_def)
    have "tasks (insert_batches (drop 500 new) ?w1) = tasks ?w1"
      using Suc.prems(2) by (intro Suc.IH) auto
    then show ?thesis
      using False d by (subst insert_batches.simps) (simp add: Let_def)
  qed
qed

lemma populate_tasks_rejected_inserts:
  "populate_tasks [''m1''] True (example_world\<lparr>tasks := [], db_faults := [False, False, True, True]\<rparr>)
   = (Returned (length (new_tasks_of [''m1''] {})),
      upsert_models [''m1'']
        (insert_batches (new_tasks_of [''m1''] {})
           (example_world\<lparr>tasks := [], db_faults := [True, True]\<rparr>)))"
  by (simp add: populate_tasks_def and_then_db_request fetch_existing.simps db_request_def
      reset_failed_tasks_def Let_def page_size_def)

lemma subseq_set_subset: "subseq xs ys \<Longrightarrow> set xs \<subseteq> set ys"
  by (auto elim: list_emb_set)

lemma subseq_distinct_left: "subseq xs ys \<Longrightarrow> distinct ys \<Longrightarrow> distinct xs"
  using subseqs_distinctD [of xs ys] by simp

text \<open>
  C5, as the code has it. A run of \<open>populate_tasks\<close> appends rows to the task store and
  removes none; no appended row has a combination that a row of the store had when the run
  began, and for a list of distinct models the appended rows have distinct combinations.
  When no request of the first run to the task store failed, a second run over the same
  models, whatever happens to its own requests, leaves the combinations of the store as they
  are (it inserts no row) and returns 0 unless it raises.
\<close>

theorem populate_tasks_idempotent:
  assumes run1: "populate_tasks models reset1 w = (r1, w1)"
    and run2: "populate_tasks models reset2 (w1\<lparr>db_faults := faults\<rparr>) = (r2, w2)"
  shows "(\<exists>inserted. map identity_of (tasks w1) = map identity_of (tasks w) @ inserted
            \<and> set inserted \<inter> set (map identity_of (tasks w)) = {}
            \<and> (distinct models \<longrightarrow> distinct inserted))
         \<and> (True \<notin> set (db_faults w) \<longrightarrow>
              map identity_of (tasks w2) = map identity_of (tasks w1)
              \<and> (r2 = Returned 0 \<or> r2 = Raised DbError))"
proof -
  define ids where "ids = map identity_of (tasks w)"
  define new where "new = new_tasks_of models (set ids)"
  from populate_tasks_result [OF run1] obtain ins where
    i: "map identity_of (tasks w1) = ids @ ins" "subseq ins new"
      "True \<notin> set (db_faults w) \<longrightarrow> ins = new"
    unfolding ids_def new_def by blast
  from i(2) have sub: "set ins \<subseteq> set new" by (rule subseq_set_subset)
  then have disj: "set ins \<inter> set ids = {}"
    unfolding new_def set_new_tasks_of by auto
  have dist: "distinct models \<longrightarrow> distinct ins"
    using i(2) distinct_new_tasks_of [of models "set ids"] subseq_distinct_left
    unfolding new_def by blast
  have second: "map identity_of (tasks w2) = map identity_of (tasks w1)
              \<and> (r2 = Returned 0 \<or> r2 = Raised DbError)"
    if "True \<notin> set (db_faults w)"
  proof -
    from that i have ids1: "map identity_of (tasks w1) = ids @ new" by simp
    have cov: "new_tasks_of models (set (map identity_of (tasks (w1\<lparr>db_faults := faults\<rparr>)))) = []"
      using new_tasks_of_covered [of models "set ids"] by (simp add: ids1 new_def)
    from populate_tasks_result [OF run2] show ?thesis
      unfolding cov by auto
  qed
  show ?thesis using i(1) disj dist second unfolding ids_def by blast
qed

theorem populate_tasks_idempotent_witness:
  "True \<notin> set (db_faults (example_world\<lparr>tasks := []\<rparr>)) \<and> distinct [''m1'']
   \<and> fst (populate_tasks [''m1''] True (example_world\<lparr>tasks := []\<rparr>)) = Returned 684
   \<and> length (tasks (snd (populate_tasks [''m1''] True (example_world\<lparr>tasks := []\<rparr>)))) = 684
   \<and> fst (populate_tasks [''m1''] True
            ((snd (populate_tasks [''m1''] True (example_world\<lparr>tasks := []\<rparr>)))
               \<lparr>db_faults := []\<rparr>))
     = Returned 0
   \<and> length (tasks (snd (populate_tasks [''m1''] True
                 ((snd (populate_tasks [''m1''] True (example_world\<lparr>tasks := []\<rparr>)))
                    \<lparr>db_faults := []\<rparr>))))
     = 684"
proof -
  let ?w = "example_world\<lparr>tasks := []\<rparr>"
  let ?run1 = "populate_tasks [''m1''] True ?w"
  let ?run2 = "populate_tasks [''m1''] True ((snd ?run1)\<lparr>db_faults := []\<rparr>)"
  have nf: "True \<notin> set (db_faults ?w)" by (simp add: example_world_def)
  from populate_tasks_result [of "[''m1'']" True ?w "fst ?run1" "snd ?run1"] nf
  have r1: "fst ?run1 = Returned (length (new_tasks_of [''m1''] {}))"
    and l1: "map identity_of (tasks (snd ?run1)) = new_tasks_of [''m1''] {}"
    by auto
  have n: "length (new_tasks_of [''m1''] {}) = 684"
    by (simp add: length_new_tasks_of_empty)
  have len1: "length (tasks (snd ?run1)) = 684"
    using arg_cong [OF l1, of length] n by simp
  from populate_tasks_result [of "[''m1'']" True "(snd ?run1)\<lparr>db_faults := []\<rparr>"
      "fst ?run2" "snd ?run2"]
  have r2: "fst ?run2 \<noteq> Raised DbError" by auto
  from populate_tasks_idempotent [of "[''m1'']" True ?w "fst ?run1" "snd ?run1"
      True "[]" "fst ?run2" "snd ?run2"] nf
  have same: "map identity_of (tasks (snd ?run2)) = map identity_of (tasks (snd ?run1))"
    and z: "fst ?run2 = Returned 0 \<or> fst ?run2 = Raised DbError" by auto
  from arg_cong [OF same, of length] have "length (tasks (snd ?run2)) = length (tasks (snd ?run1))"
    by simp
  with len1 nf r1 n r2 z show ?thesis by auto
qed

text \<open>
  C5, as stated, fails where the store rejects the inserts of the first run: the function
  logs the exception of each batch and goes on, so the run returns 684 for the model \<open>m1\<close>
  with no row inserted, and the second run inserts the 684 rows.
\<close>

theorem populate_tasks_second_run_inserts:
  "fst (populate_tasks [''m1''] True
          (example_world\<lparr>tasks := [], db_faults := [False, False, True, True]\<rparr>))
     = Returned 684
   \<and> tasks (snd (populate_tasks [''m1''] True
                 (example_world\<lparr>tasks := [], db_faults := [False, False, True, True]\<rparr>)))
     = []
   \<and> length (tasks (snd (populate_tasks [''m1''] True
        ((snd (populate_tasks [''m1''] True
                 (example_world\<lparr>tasks := [], db_faults := [False, False, True, True]\<rparr>)))
           \<lparr>db_faults := []\<rparr>))))
     = 684"
proof -
  let ?w0 = "example_world\<lparr>tasks := [], db_faults := [False, False, True, True]\<rparr>"
  let ?run1 = "populate_tasks [''m1''] True ?w0"
  let ?run2 = "populate_tasks [''m1''] True ((snd ?run1)\<lparr>db_faults := []\<rparr>)"
  have n: "length (new_tasks_of [''m1''] {}) = 684"
    by (simp add: length_new_tasks_of_empty)
  have fail: "tasks (insert_batches (new_tasks_of [''m1''] {})
                 (example_world\<lparr>tasks := [], db_faults := [True, True]\<rparr>)) = []"
    using insert_batches_all_fail [of "example_world\<lparr>tasks := [], db_faults := [True, True]\<rparr>"
        2 "[]" "new_tasks_of [''m1''] {}"] n
    by (simp add: numeral_2_eq_2)
  have t1: "tasks (snd ?run1) = []"
    by (simp only: populate_tasks_rejected_inserts snd_conv upsert_models_tasks fail)
  have r1: "fst ?run1 = Returned 684"
    by (simp only: populate_tasks_rejected_inserts fst_conv n)
  from populate_tasks_result [of "[''m1'']" True "(snd ?run1)\<lparr>db_faults := []\<rparr>"
      "fst ?run2" "snd ?run2"]
  have "map identity_of (tasks (snd ?run2)) = new_tasks_of [''m1''] {}"
    by (simp add: t1)
  from arg_cong [OF this, of length] have "length (tasks (snd ?run2)) = 684"
    by (simp add: n)
  with t1 r1 show ?thesis by simp
qed

section \<open>The retry bound\<close>

lemma rows_kept_refl [simp]: "rows_kept rows rows"
  by (simp add: rows_kept_def)




lemma and_then_elim:
  assumes "and_then m f = (r, w')"
  obtains e where "m = (Raised e, w')" "r = Raised e"
  | x w1 where "m = (Returned x, w1)" "f x w1 = (r, w')"
proof (cases m)
  case (Pair r1 w1)
  with assms show ?thesis by (cases r1) (auto intro: that)
qed

lemma try_except_elim:
  assumes "try_except m h = (r, w')"
  obtains e w1 where "m = (Raised e, w1)" "h e w1 = (r, w')"
  | x where "m = (Returned x, w')" "r = Returned x"
proof (cases m)
  case (Pair r1 w1)
  with assms show ?thesis by (cases r1) (auto intro: that)
qed

lemma db_request_tasks: "db_request w = (r, w') \<Longrightarrow> tasks w' = tasks w"
  by (auto simp: db_request_def)

lemma s3_request_tasks: "s3_request w = (r, w') \<Longrightarrow> tasks w' = tasks w"
  by (auto simp: s3_request_def)

lemma put_object_tasks: "put_object key body w = (r, w') \<Longrightarrow> tasks w' = tasks w"
  by (auto simp: put_object_def and_then_s3_request split: if_splits)

lemma head_object_tasks: "head_object key w = (r, w') \<Longrightarrow> tasks w' = tasks w"
  by (auto simp: head_object_def and_then_s3_request split: if_splits option.splits)

lemma get_object_tasks: "get_object key w = (r, w') \<Longrightarrow> tasks w' = tasks w"
  by (auto simp: get_object_def and_then_s3_request split: if_splits option.splits)


lemma task_id_update_data [simp]: "task_id (update_data c n st key fs err t) = task_id t"
  by (simp add: update_data_def Let_def)



















lemma tasks_update_progress [simp]: "tasks (update_progress client step n percent w) = tasks w"
  by (auto simp: update_progress_def db_request_def split: option.split bool.split prod.split)

lemma tasks_complete_progress [simp]: "tasks (complete_progress client ok url error w) = tasks w"
  by (auto simp: complete_progress_def db_request_def split: option.split bool.split prod.split)

lemma tasks_download_masks [simp]: "tasks (download_masks keys w) = tasks w"
proof (induction keys arbitrary: w)
  case Nil
  then show ?case by simp
next
  case (Cons key keys)
  obtain r1 w1 where g: "get_object key w = (r1, w1)" by (cases "get_object key w") auto
  then have "tasks w1 = tasks w" by (rule get_object_tasks)
  then show ?case by (cases r1) (simp_all add: Let_def g Cons.IH)
qed

lemma tasks_sync_masks [simp]: "tasks (snd (sync_masks w)) = tasks w"
  by (simp add: sync_masks_def and_then_s3_request Let_def)

lemma tasks_head_object [simp]: "tasks (snd (head_object key w)) = tasks w"
  using head_object_tasks [of key w] by (cases "head_object key w") auto


lemma kept_same: "tasks w' = tasks w \<Longrightarrow> rows_kept (tasks w) (tasks w')"
  by simp







section \<open>The HTTP entry points\<close>


lemma s3_faults_update_progress [simp]:
  "s3_faults (update_progress client step n percent w) = s3_faults w"
  by (auto simp: update_progress_def db_request_def split: option.split bool.split prod.split)

lemma s3_faults_complete_progress [simp]:
  "s3_faults (complete_progress client ok url error w) = s3_faults w"
  by (auto simp: complete_progress_def db_request_def split: option.split bool.split prod.split)

lemma s3_faults_complete_tasks [simp]:
  "s3_faults (complete_tasks client model primary accent leds key n w) = s3_faults w"
  by (simp add: complete_tasks_def db_request_def)









lemma update_progress_no_client [simp]: "update_progress (False, pid) step n percent w = w"
  by (simp add: update_progress_def)

lemma complete_progress_no_client [simp]: "complete_progress (False, pid) ok url error w = w"
  by (simp add: complete_progress_def)




end
